(* ===== verification/Prelude.thy ===== *)
theory Prelude
  imports Main "HOL-Library.Word" "HOL-Library.AList" "HOL-Library.Multiset"
    "HOL-Library.Code_Target_Nat"
begin

text \<open>
  What every component shares: the named collections the proofs draw on, the types of the
  model, generic facts on association lists and on sorted permutations, and the interfaces that
  several components implement: a printable key, and transition systems with an invariant, with a
  measure, and with the promise that they go on until they are done.

  Go values are modelled by value.  A slice is a list (the nil slice is the empty list: no
  operation of the program tells the two apart), a string is the list of its bytes, a byte an
  \<open>8 word\<close>, a Go map an association list with distinct keys, and the order in which
  a \<open>range\<close> over a map visits its entries is a parameter that may be any permutation.
\<close>

unbundle bit_operations_syntax

named_theorems net_simps \<open>addresses and their printed form\<close>
named_theorems merge_simps \<open>merging of device records\<close>
named_theorems go_str \<open>the string functions of the Go library\<close>

type_synonym byte = "8 word"
type_synonym ip = "byte list"
type_synonym hwaddr = "byte list"
type_synonym ('k, 'v) gomap = "('k \<times> 'v) list"

subsection \<open>Go maps as association lists\<close>

text \<open>\<open>m[k] = v\<close>; \<open>v, ok := m[k]\<close>; \<open>len(m)\<close>.\<close>

abbreviation map_put :: "'k \<Rightarrow> 'v \<Rightarrow> ('k, 'v) gomap \<Rightarrow> ('k, 'v) gomap" where
  "map_put \<equiv> AList.update"

abbreviation map_get :: "('k, 'v) gomap \<Rightarrow> 'k \<Rightarrow> 'v option" where
  "map_get \<equiv> map_of"

definition distinct_keys :: "('k, 'v) gomap \<Rightarrow> bool" where
  "distinct_keys m \<longleftrightarrow> distinct (map fst m)"

text \<open>An iteration order: whatever the run time chooses, it visits each entry once.\<close>

definition map_order :: "(('k, 'v) gomap \<Rightarrow> ('k, 'v) gomap) \<Rightarrow> bool" where
  "map_order iter \<longleftrightarrow> (\<forall>m. mset (iter m) = mset m)"

lemma map_order_id [simp]: "map_order (\<lambda>m. m)"
  by (simp add: map_order_def)

lemma map_order_rev [simp]: "map_order rev"
  by (simp add: map_order_def)

lemma map_order_set: "map_order iter \<Longrightarrow> set (iter m) = set m"
  unfolding map_order_def by (metis mset_eq_setD)

lemma map_order_length: "map_order iter \<Longrightarrow> length (iter m) = length m"
  unfolding map_order_def by (metis mset_eq_length)

lemma distinct_keys_Nil [simp]: "distinct_keys []"
  by (simp add: distinct_keys_def)

lemma distinct_keys_put [simp]: "distinct_keys m \<Longrightarrow> distinct_keys (map_put k v m)"
  by (simp add: distinct_keys_def distinct_update)

lemma map_get_put: "map_get (map_put k v m) k' = (if k' = k then Some v else map_get m k')"
  by (simp add: update_conv')

lemma map_get_keys: "map_get m k = None \<longleftrightarrow> k \<notin> fst ` set m"
  by (simp add: map_of_eq_None_iff)

lemma keys_put [simp]: "fst ` set (map_put k v m) = insert k (fst ` set m)"
  by (induction m) auto

lemma set_put_subset: "set (map_put k v m) \<subseteq> insert (k, v) (set m)"
  by (induction m) auto

lemma map_get_Some_iff:
  "distinct_keys m \<Longrightarrow> map_get m k = Some v \<longleftrightarrow> (k, v) \<in> set m"
  by (simp add: distinct_keys_def)

lemma map_put_same: "map_get m k = Some v \<Longrightarrow> map_put k v m = m"
  by (induction m) (auto split: if_splits)

lemma map_get_order:
  "map_order iter \<Longrightarrow> distinct_keys m \<Longrightarrow> distinct_keys (iter m)"
  unfolding map_order_def distinct_keys_def by (metis mset_eq_imp_distinct_iff mset_map)

subsection \<open>The first element that is set\<close>

text \<open>A field filled by several reports holds the first value that counts as set.\<close>

definition first_set :: "('a \<Rightarrow> bool) \<Rightarrow> 'a \<Rightarrow> 'a list \<Rightarrow> 'a" where
  "first_set ok dflt xs = (case find ok xs of Some x \<Rightarrow> x | None \<Rightarrow> dflt)"

lemma first_set_simps [simp]:
  "first_set ok z [] = z" "first_set ok z (x # xs) = (if ok x then x else first_set ok z xs)"
  by (simp_all add: first_set_def)

lemma first_set_append:
  "first_set ok z (xs @ ys) = (if \<exists>x \<in> set xs. ok x then first_set ok z xs else first_set ok z ys)"
  by (induction xs) auto

lemma first_set_ok: "\<exists>x \<in> set xs. ok x \<Longrightarrow> ok (first_set ok z xs) \<and> first_set ok z xs \<in> set xs"
  by (induction xs) auto

lemma first_set_none: "\<not> (\<exists>x \<in> set xs. ok x) \<Longrightarrow> first_set ok z xs = z"
  by (induction xs) auto

lemma first_set_ok_iff: "(ok z \<Longrightarrow> z \<in> set xs) \<Longrightarrow> ok (first_set ok z xs) \<longleftrightarrow> (\<exists>x \<in> set xs. ok x)"
  by (metis first_set_none first_set_ok)

lemma first_set_snoc:
  "(ok z \<Longrightarrow> z \<in> set xs) \<Longrightarrow> first_set ok z (xs @ [x]) =
     (if \<not> ok (first_set ok z xs) \<and> ok x then x else first_set ok z xs)"
  by (simp add: first_set_append first_set_ok_iff first_set_none)

subsection \<open>Permutations sorted by a strict order\<close>

text \<open>
  \<open>sort.Slice\<close> is not stable: all it promises is a permutation of its argument in which
  no later element is less than an earlier one.  For elements that a strict order separates
  there is only one such permutation.
\<close>

definition slice_sorted :: "('a \<Rightarrow> 'a \<Rightarrow> bool) \<Rightarrow> 'a list \<Rightarrow> bool" where
  "slice_sorted lt xs \<longleftrightarrow> sorted_wrt (\<lambda>x y. \<not> lt y x) xs"

lemma sorted_wrt_unique:
  assumes "sorted_wrt r xs" "sorted_wrt r ys" "mset xs = mset ys"
    and "\<And>x y. x \<in> set xs \<Longrightarrow> y \<in> set xs \<Longrightarrow> r x y \<Longrightarrow> r y x \<Longrightarrow> x = y"
  shows "xs = ys"
  using assms
proof (induction xs arbitrary: ys)
  case Nil
  then show ?case by simp
next
  case (Cons x xs)
  then obtain y ys' where ys: "ys = y # ys'"
    by (cases ys) auto
  have sets: "set (x # xs) = set ys"
    using Cons.prems(3) by (metis mset_eq_setD)
  have "x = y"
  proof (rule ccontr)
    assume ne: "x \<noteq> y"
    then have "y \<in> set xs" "x \<in> set ys'"
      using sets ys by auto
    then have "r x y" "r y x"
      using Cons.prems(1,2) ys by auto
    then show False
      using Cons.prems(4)[of x y] \<open>y \<in> set xs\<close> ne by auto
  qed
  moreover have "xs = ys'"
    using Cons.prems ys \<open>x = y\<close> by (intro Cons.IH) auto
  ultimately show ?case
    using ys by simp
qed

subsection \<open>Interface: a key that can be read back\<close>

text \<open>
  Several stages key a Go map by the printed form of an address and read the address back from
  the key afterwards.  The clients need that reading back gives the address, and so that no two
  addresses share a key.
\<close>

locale key_codec =
  fixes key :: "'a \<Rightarrow> 'k" and unkey :: "'k \<Rightarrow> 'a" and valid :: "'a \<Rightarrow> bool"
  assumes unkey_key: "valid x \<Longrightarrow> unkey (key x) = x"
begin

lemma key_inj: "valid x \<Longrightarrow> valid y \<Longrightarrow> key x = key y \<Longrightarrow> x = y"
  by (metis unkey_key)

lemma key_inj_on: "(\<And>x. x \<in> A \<Longrightarrow> valid x) \<Longrightarrow> inj_on key A"
  by (meson inj_onI key_inj)

lemma unkey_image: "(\<And>x. x \<in> A \<Longrightarrow> valid x) \<Longrightarrow> unkey ` key ` A = A"
  using unkey_key by (force simp: image_iff)

end

subsection \<open>Interface: a transition system with an invariant\<close>

text \<open>
  A component whose goroutines interleave is a step relation; what it promises is an invariant
  of every state reached from its initial one.  A \<open>measured_system\<close> has in addition a
  measure that every internal step lowers, so that no run of internal steps goes on for ever.
\<close>

locale inv_system =
  fixes start :: "'s \<Rightarrow> bool" and step :: "'s \<Rightarrow> 's \<Rightarrow> bool" and inv :: "'s \<Rightarrow> bool"
  assumes inv_start: "start s \<Longrightarrow> inv s"
    and inv_step: "inv s \<Longrightarrow> step s t \<Longrightarrow> inv t"
begin

lemma inv_steps: "step\<^sup>*\<^sup>* s t \<Longrightarrow> inv s \<Longrightarrow> inv t"
  by (induction rule: rtranclp_induct) (auto intro: inv_step)

lemma inv_reachable: "start s \<Longrightarrow> step\<^sup>*\<^sup>* s t \<Longrightarrow> inv t"
  using inv_start inv_steps by blast

end

locale measured_system = inv_system start step inv
  for start :: "'s \<Rightarrow> bool" and step :: "'s \<Rightarrow> 's \<Rightarrow> bool" and inv :: "'s \<Rightarrow> bool" +
  fixes work :: "'s \<Rightarrow> 's \<Rightarrow> bool" and weight :: "'s \<Rightarrow> nat"
  assumes work_step: "work s t \<Longrightarrow> step s t"
    and work_less: "inv s \<Longrightarrow> work s t \<Longrightarrow> weight t < weight s"
begin

lemma work_bounded: "inv s \<Longrightarrow> (work ^^ n) s t \<Longrightarrow> n + weight t \<le> weight s"
proof (induction n arbitrary: t)
  case 0
  then show ?case by simp
next
  case (Suc n)
  then obtain u where u: "(work ^^ n) s u" "work u t"
    by auto
  have "step\<^sup>*\<^sup>* s u"
    using u(1) work_step by (metis (full_types) mono_rtranclp relpowp_imp_rtranclp)
  then have "inv u"
    using Suc.prems(1) inv_steps by blast
  then show ?case
    using Suc.IH[OF Suc.prems(1) u(1)] work_less[OF \<open>inv u\<close> u(2)] by simp
qed

text \<open>If only the final states have no internal step, internal steps lead to a final state.\<close>

lemma work_completes:
  assumes "inv s" "\<And>s. inv s \<Longrightarrow> \<not> fin s \<Longrightarrow> \<exists>t. work s t"
  shows "\<exists>t. work\<^sup>*\<^sup>* s t \<and> fin t"
  using assms(1)
proof (induction "weight s" arbitrary: s rule: less_induct)
  case less
  show ?case
  proof (cases "fin s")
    case False
    then obtain u where "work s u"
      using assms(2) less.prems by blast
    moreover have "weight u < weight s" "inv u"
      using work_less[OF less.prems \<open>work s u\<close>] inv_step[OF less.prems work_step[OF \<open>work s u\<close>]] by simp_all
    ultimately show ?thesis
      using less.hyps by (meson converse_rtranclp_into_rtranclp)
  qed blast
qed

end

subsection \<open>Interface: a system that goes on until it is done\<close>

text \<open>
  A run is an infinite sequence of states, in which every state is the one before it or follows from
  it by a step; it is fair if the internal steps are not put off for ever: again and again one is
  taken, or none is possible.  A \<open>fair_system\<close> is a measured one whose other steps (cancellation,
  messages from outside) do not raise the measure, and in which an internal step is possible until
  it is done.  However its fair runs go, they get done.
\<close>

definition fair_run :: "('s \<Rightarrow> 's \<Rightarrow> bool) \<Rightarrow> ('s \<Rightarrow> 's \<Rightarrow> bool) \<Rightarrow> (nat \<Rightarrow> 's) \<Rightarrow> bool" where
  "fair_run step work r \<longleftrightarrow>
     (\<forall>i. r (Suc i) = r i \<or> step (r i) (r (Suc i))) \<and>
     (\<forall>i. \<exists>j \<ge> i. work (r j) (r (Suc j)) \<or> \<not> (\<exists>t. work (r j) t))"

text \<open>A run whose steps follow one another up to a state without internal steps, in which it stays.\<close>

lemma fair_run_stays:
  assumes "\<forall>i < n. step (r i) (r (Suc i))" "\<forall>i \<ge> n. r i = r n" "\<not> (\<exists>t. work (r n) t)"
  shows "fair_run step work r"
  unfolding fair_run_def
proof (intro conjI allI)
  have stays: "i \<ge> n \<Longrightarrow> r i = r n" for i
    using assms(2) by blast
  show "r (Suc i) = r i \<or> step (r i) (r (Suc i))" for i
    using assms(1) stays[of i] stays[of "Suc i"] by (cases "i < n") auto
  show "\<exists>j \<ge> i. work (r j) (r (Suc j)) \<or> \<not> (\<exists>t. work (r j) t)" for i
    using stays[of "max i n"] assms(3) by (metis max.cobounded1 max.cobounded2)
qed

locale fair_system = measured_system start step inv work weight
  for start :: "'s \<Rightarrow> bool" and step :: "'s \<Rightarrow> 's \<Rightarrow> bool" and inv :: "'s \<Rightarrow> bool"
    and work :: "'s \<Rightarrow> 's \<Rightarrow> bool" and weight :: "'s \<Rightarrow> nat" +
  fixes fin :: "'s \<Rightarrow> bool"
  assumes step_weight: "inv s \<Longrightarrow> step s t \<Longrightarrow> weight t \<le> weight s"
    and work_enabled: "inv s \<Longrightarrow> \<not> fin s \<Longrightarrow> \<exists>t. work s t"
begin

lemma can_finish: "inv s \<Longrightarrow> \<exists>t. work\<^sup>*\<^sup>* s t \<and> fin t"
  by (rule work_completes) (auto intro: work_enabled)

lemma run_inv: "fair_run step work r \<Longrightarrow> inv (r 0) \<Longrightarrow> inv (r i)"
proof (induction i)
  case (Suc i)
  then have "r (Suc i) = r i \<or> step (r i) (r (Suc i))" "inv (r i)"
    by (auto simp: fair_run_def)
  then show ?case
    using inv_step by metis
qed

lemma run_weight: "fair_run step work r \<Longrightarrow> inv (r 0) \<Longrightarrow> i \<le> j \<Longrightarrow> weight (r j) \<le> weight (r i)"
proof (induction "j - i" arbitrary: j)
  case (Suc n)
  then obtain k where k: "j = Suc k" "i \<le> k" "n = k - i"
    by (cases j) auto
  have "r j = r k \<or> step (r k) (r j)"
    using Suc.prems(1) k(1) by (simp add: fair_run_def)
  then have "weight (r j) \<le> weight (r k)"
    using step_weight run_inv[OF Suc.prems(1,2)] by auto
  then show ?case
    using Suc.hyps(1)[OF k(3) Suc.prems(1,2) k(2)] by simp
qed simp

lemma fair_finishes:
  assumes "fair_run step work r" "inv (r 0)"
  shows "\<exists>j \<ge> i. fin (r j)"
proof (induction "weight (r i)" arbitrary: i rule: less_induct)
  case less
  obtain j where j: "j \<ge> i" "work (r j) (r (Suc j)) \<or> \<not> (\<exists>t. work (r j) t)"
    using assms(1) unfolding fair_run_def by blast
  show ?case
  proof (cases "fin (r j)")
    case False
    then have "work (r j) (r (Suc j))"
      using j(2) work_enabled run_inv[OF assms] by blast
    then have "weight (r (Suc j)) < weight (r i)"
      using work_less[OF run_inv[OF assms]] run_weight[OF assms j(1)] by (meson less_le_trans)
    then obtain k where "k \<ge> Suc j" "fin (r k)"
      using less by blast
    then show ?thesis
      using j(1) by (meson Suc_leD order_trans)
  qed (use j in blast)
qed

end

end
