(* ===== verification/GoStrings.thy ===== *)
theory GoStrings
  imports Prelude
begin

text \<open>
  The functions of Go's \<open>strings\<close>, \<open>unicode\<close>, \<open>utf8\<close> and \<open>strconv\<close> packages
  that the program calls, on strings as byte lists.  Go strings need not be valid UTF-8: decoding
  turns each stray byte into one replacement rune, and \<open>ToLower\<close> re-encodes what it decoded, so
  that it is not length preserving outside ASCII.  \<open>TrimSpace\<close> and \<open>Fields\<close> know the Unicode
  spaces.  The case table is Unicode's simple lower-case mapping, the digit table its category Nd.
\<close>

subsection \<open>Bytes and prefixes\<close>

definition byte_val :: "char \<Rightarrow> nat" where
  "byte_val c = of_char c"

definition is_ascii :: "char \<Rightarrow> bool" where
  "is_ascii c \<longleftrightarrow> byte_val c < 128"

fun has_prefix :: "string \<Rightarrow> string \<Rightarrow> bool" where
  "has_prefix s [] = True"
| "has_prefix [] (p # ps) = False"
| "has_prefix (c # cs) (p # ps) = (c = p \<and> has_prefix cs ps)"

text \<open>\<open>strings.Index\<close>: the first position at which \<open>sub\<close> occurs, \<open>None\<close> for -1.\<close>

fun index_of :: "string \<Rightarrow> string \<Rightarrow> nat option" where
  "index_of [] sub = (if sub = [] then Some 0 else None)"
| "index_of (c # cs) sub =
     (if has_prefix (c # cs) sub then Some 0 else map_option Suc (index_of cs sub))"

definition contains :: "string \<Rightarrow> string \<Rightarrow> bool" where
  "contains s sub \<longleftrightarrow> index_of s sub \<noteq> None"

definition index_byte :: "string \<Rightarrow> char \<Rightarrow> nat option" where
  "index_byte s c = index_of s [c]"

text \<open>\<open>strings.LastIndex\<close> for a one-byte separator.\<close>

fun last_index :: "string \<Rightarrow> char \<Rightarrow> nat option" where
  "last_index [] d = None"
| "last_index (c # cs) d =
     (case last_index cs d of Some i \<Rightarrow> Some (Suc i) | None \<Rightarrow> if c = d then Some 0 else None)"

text \<open>\<open>strings.ContainsAny\<close> for a set of ASCII bytes.\<close>

definition contains_any :: "string \<Rightarrow> string \<Rightarrow> bool" where
  "contains_any s cs \<longleftrightarrow> list_ex (\<lambda>c. List.member cs c) s"

text \<open>\<open>strings.Split\<close> at a one-byte separator, \<open>strings.Join\<close>.\<close>

fun split_on :: "char \<Rightarrow> string \<Rightarrow> string list" where
  "split_on d [] = [[]]"
| "split_on d (c # cs) =
     (if c = d then [] # split_on d cs
      else case split_on d cs of [] \<Rightarrow> [[c]] | w # ws \<Rightarrow> (c # w) # ws)"

fun join :: "string \<Rightarrow> string list \<Rightarrow> string" where
  "join sep [] = []"
| "join sep [x] = x"
| "join sep (x # y # ys) = x @ sep @ join sep (y # ys)"

subsection \<open>UTF-8\<close>

definition cont :: "nat \<Rightarrow> bool" where
  "cont b \<longleftrightarrow> 128 \<le> b \<and> b < 192"

definition rune_error :: nat where
  "rune_error = 65533"

text \<open>
  \<open>utf8.DecodeRuneInString\<close> on a non-empty list of byte values: the rune and its width; a byte
  that starts no valid sequence is \<open>rune_error\<close> of width 1.
\<close>

fun decode2 :: "nat list \<Rightarrow> nat \<times> nat" where
  "decode2 (a # b # _) = (if cont b then ((a - 192) * 64 + (b - 128), 2) else (rune_error, 1))"
| "decode2 _ = (rune_error, 1)"

fun decode3 :: "nat list \<Rightarrow> nat \<times> nat" where
  "decode3 (a # b # c # _) =
     (if (if a = 224 then 160 \<le> b \<and> b < 192 else if a = 237 then 128 \<le> b \<and> b < 160 else cont b)
         \<and> cont c
      then ((a - 224) * 4096 + (b - 128) * 64 + (c - 128), 3) else (rune_error, 1))"
| "decode3 _ = (rune_error, 1)"

fun decode4 :: "nat list \<Rightarrow> nat \<times> nat" where
  "decode4 (a # b # c # d # _) =
     (if (if a = 240 then 144 \<le> b \<and> b < 192 else if a = 244 then 128 \<le> b \<and> b < 144 else cont b)
         \<and> cont c \<and> cont d
      then ((a - 240) * 262144 + (b - 128) * 4096 + (c - 128) * 64 + (d - 128), 4)
      else (rune_error, 1))"
| "decode4 _ = (rune_error, 1)"

definition decode_rune :: "nat list \<Rightarrow> nat \<times> nat" where
  "decode_rune bs =
     (let a = hd bs in
      if a < 128 then (a, 1)
      else if 194 \<le> a \<and> a < 224 then decode2 bs
      else if 224 \<le> a \<and> a < 240 then decode3 bs
      else if 240 \<le> a \<and> a < 245 then decode4 bs
      else (rune_error, 1))"

lemma decode_rune_width: "1 \<le> snd (decode_rune bs)"
  unfolding decode_rune_def Let_def
  by (cases bs rule: decode2.cases; cases bs rule: decode3.cases; cases bs rule: decode4.cases) auto

function decode_runes :: "nat list \<Rightarrow> nat list" where
  "decode_runes [] = []"
| "decode_runes (b # bs) =
     (let (r, w) = decode_rune (b # bs) in r # decode_runes (drop w (b # bs)))"
  by pat_completeness auto
termination
proof (relation "measure length", simp)
  fix b bs p r w
  assume "p = decode_rune (b # bs)" "(r, w) = p"
  then have "1 \<le> w"
    using decode_rune_width[of "b # bs"] by (metis snd_conv)
  then show "(drop w (b # bs), b # bs) \<in> measure length"
    by simp
qed

text \<open>\<open>[]rune(s)\<close> (what \<open>range s\<close> visits) and the encoding of one rune.\<close>

definition runes :: "string \<Rightarrow> nat list" where
  "runes s = decode_runes (map byte_val s)"

definition encode_rune :: "nat \<Rightarrow> string" where
  "encode_rune r = map char_of
     (if r < 128 then [r]
      else if r < 2048 then [192 + r div 64, 128 + r mod 64]
      else if r < 65536 then [224 + r div 4096, 128 + r div 64 mod 64, 128 + r mod 64]
      else [240 + r div 262144, 128 + r div 4096 mod 64, 128 + r div 64 mod 64, 128 + r mod 64])"

subsection \<open>Case\<close>

definition lower_byte :: "char \<Rightarrow> char" where
  "lower_byte c = (if 65 \<le> byte_val c \<and> byte_val c \<le> 90 then char_of (byte_val c + 32) else c)"

definition upper_byte :: "char \<Rightarrow> char" where
  "upper_byte c = (if 97 \<le> byte_val c \<and> byte_val c \<le> 122 then char_of (byte_val c - 32) else c)"

text \<open>The entry \<open>(lo, hi, step, delta)\<close> maps every \<open>step\<close>-th rune of \<open>lo..hi\<close> to itself plus
  \<open>delta\<close>.\<close>

definition lower_ranges :: "(nat \<times> nat \<times> nat \<times> int) list" where
  "lower_ranges =
    [(192, 214, 1, 32), (216, 222, 1, 32), (256, 302, 2, 1), (304, 304, 1, -199),
     (306, 310, 2, 1), (313, 327, 2, 1), (330, 374, 2, 1), (376, 376, 1, -121),
     (377, 381, 2, 1), (385, 385, 1, 210), (386, 388, 2, 1), (390, 390, 1, 206),
     (391, 391, 1, 1), (393, 394, 1, 205), (395, 395, 1, 1), (398, 398, 1, 79),
     (399, 399, 1, 202), (400, 400, 1, 203), (401, 401, 1, 1), (403, 403, 1, 205),
     (404, 404, 1, 207), (406, 406, 1, 211), (407, 407, 1, 209), (408, 408, 1, 1),
     (412, 412, 1, 211), (413, 413, 1, 213), (415, 415, 1, 214), (416, 420, 2, 1),
     (422, 422, 1, 218), (423, 423, 1, 1), (425, 425, 1, 218), (428, 428, 1, 1),
     (430, 430, 1, 218), (431, 431, 1, 1), (433, 434, 1, 217), (435, 437, 2, 1),
     (439, 439, 1, 219), (440, 440, 1, 1), (444, 444, 1, 1), (452, 452, 1, 2),
     (453, 453, 1, 1), (455, 455, 1, 2), (456, 456, 1, 1), (458, 458, 1, 2),
     (459, 475, 2, 1), (478, 494, 2, 1), (497, 497, 1, 2), (498, 500, 2, 1),
     (502, 502, 1, -97), (503, 503, 1, -56), (504, 542, 2, 1), (544, 544, 1, -130),
     (546, 562, 2, 1), (570, 570, 1, 10795), (571, 571, 1, 1), (573, 573, 1, -163),
     (574, 574, 1, 10792), (577, 577, 1, 1), (579, 579, 1, -195), (580, 580, 1, 69),
     (581, 581, 1, 71), (582, 590, 2, 1), (880, 882, 2, 1), (886, 886, 1, 1),
     (895, 895, 1, 116), (902, 902, 1, 38), (904, 906, 1, 37), (908, 908, 1, 64),
     (910, 911, 1, 63), (913, 929, 1, 32), (931, 939, 1, 32), (975, 975, 1, 8),
     (984, 1006, 2, 1), (1012, 1012, 1, -60), (1015, 1015, 1, 1), (1017, 1017, 1, -7),
     (1018, 1018, 1, 1), (1021, 1023, 1, -130), (1024, 1039, 1, 80), (1040, 1071, 1, 32),
     (1120, 1152, 2, 1), (1162, 1214, 2, 1), (1216, 1216, 1, 15), (1217, 1229, 2, 1),
     (1232, 1326, 2, 1), (1329, 1366, 1, 48), (4256, 4293, 1, 7264), (4295, 4295, 1, 7264),
     (4301, 4301, 1, 7264), (5024, 5103, 1, 38864), (5104, 5109, 1, 8), (7312, 7354, 1, -3008),
     (7357, 7359, 1, -3008), (7680, 7828, 2, 1), (7838, 7838, 1, -7615), (7840, 7934, 2, 1),
     (7944, 7951, 1, -8), (7960, 7965, 1, -8), (7976, 7983, 1, -8), (7992, 7999, 1, -8),
     (8008, 8013, 1, -8), (8025, 8031, 2, -8), (8040, 8047, 1, -8), (8072, 8079, 1, -8),
     (8088, 8095, 1, -8), (8104, 8111, 1, -8), (8120, 8121, 1, -8), (8122, 8123, 1, -74),
     (8124, 8124, 1, -9), (8136, 8139, 1, -86), (8140, 8140, 1, -9), (8152, 8153, 1, -8),
     (8154, 8155, 1, -100), (8168, 8169, 1, -8), (8170, 8171, 1, -112), (8172, 8172, 1, -7),
     (8184, 8185, 1, -128), (8186, 8187, 1, -126), (8188, 8188, 1, -9), (8486, 8486, 1, -7517),
     (8490, 8490, 1, -8383), (8491, 8491, 1, -8262), (8498, 8498, 1, 28), (8544, 8559, 1, 16),
     (8579, 8579, 1, 1), (9398, 9423, 1, 26), (11264, 11311, 1, 48), (11360, 11360, 1, 1),
     (11362, 11362, 1, -10743), (11363, 11363, 1, -3814), (11364, 11364, 1, -10727), (11367, 11371, 2, 1),
     (11373, 11373, 1, -10780), (11374, 11374, 1, -10749), (11375, 11375, 1, -10783), (11376, 11376, 1, -10782),
     (11378, 11378, 1, 1), (11381, 11381, 1, 1), (11390, 11391, 1, -10815), (11392, 11490, 2, 1),
     (11499, 11501, 2, 1), (11506, 11506, 1, 1), (42560, 42604, 2, 1), (42624, 42650, 2, 1),
     (42786, 42798, 2, 1), (42802, 42862, 2, 1), (42873, 42875, 2, 1), (42877, 42877, 1, -35332),
     (42878, 42886, 2, 1), (42891, 42891, 1, 1), (42893, 42893, 1, -42280), (42896, 42898, 2, 1),
     (42902, 42920, 2, 1), (42922, 42922, 1, -42308), (42923, 42923, 1, -42319), (42924, 42924, 1, -42315),
     (42925, 42925, 1, -42305), (42926, 42926, 1, -42308), (42928, 42928, 1, -42258), (42929, 42929, 1, -42282),
     (42930, 42930, 1, -42261), (42931, 42931, 1, 928), (42932, 42946, 2, 1), (42948, 42948, 1, -48),
     (42949, 42949, 1, -42307), (42950, 42950, 1, -35384), (42951, 42953, 2, 1), (42960, 42960, 1, 1),
     (42966, 42968, 2, 1), (42997, 42997, 1, 1), (65313, 65338, 1, 32), (66560, 66599, 1, 40),
     (66736, 66771, 1, 40), (66928, 66938, 1, 39), (66940, 66954, 1, 39), (66956, 66962, 1, 39),
     (66964, 66965, 1, 39), (68736, 68786, 1, 64), (71840, 71871, 1, 32), (93760, 93791, 1, 32),
     (125184, 125217, 1, 34)]"

definition unicode_lower :: "nat \<Rightarrow> nat" where
  "unicode_lower r =
     (if r < 128 then (if 65 \<le> r \<and> r \<le> 90 then r + 32 else r)
      else case find (\<lambda>(lo, hi, st, d). lo \<le> r \<and> r \<le> hi \<and> (r - lo) mod st = 0) lower_ranges of
             Some (lo, hi, st, d) \<Rightarrow> nat (int r + d)
           | None \<Rightarrow> r)"

text \<open>\<open>strings.ToLower\<close>: byte-wise on ASCII, rune-wise otherwise.\<close>

definition to_lower :: "string \<Rightarrow> string" where
  "to_lower s =
     (if list_all is_ascii s then map lower_byte s
      else concat (map (\<lambda>r. encode_rune (unicode_lower r)) (runes s)))"

text \<open>\<open>strings.EqualFold\<close> against an ASCII string: besides the two cases of a letter, only the
  Kelvin sign and the long s fold into ASCII.\<close>

definition fold_rune :: "nat \<Rightarrow> nat" where
  "fold_rune r = (if 65 \<le> r \<and> r \<le> 90 then r + 32 else if r = 8490 then 107
                  else if r = 383 then 115 else r)"

definition equal_fold :: "string \<Rightarrow> string \<Rightarrow> bool" where
  "equal_fold s t \<longleftrightarrow> map fold_rune (runes s) = map fold_rune (runes t)"

subsection \<open>Space\<close>

definition ascii_space :: "char \<Rightarrow> bool" where
  "ascii_space c \<longleftrightarrow> byte_val c = 32 \<or> (9 \<le> byte_val c \<and> byte_val c \<le> 13)"

definition unicode_space3 :: "nat \<Rightarrow> nat \<Rightarrow> nat \<Rightarrow> bool" where
  "unicode_space3 a b c \<longleftrightarrow>
     a = 225 \<and> b = 154 \<and> c = 128 \<or>
     a = 226 \<and> b = 128 \<and> (128 \<le> c \<and> c \<le> 138 \<or> c = 168 \<or> c = 169 \<or> c = 175) \<or>
     a = 226 \<and> b = 129 \<and> c = 159 \<or>
     a = 227 \<and> b = 128 \<and> c = 128"

definition unicode_space2 :: "nat \<Rightarrow> nat \<Rightarrow> bool" where
  "unicode_space2 a b \<longleftrightarrow> a = 194 \<and> (b = 133 \<or> b = 160)"

text \<open>The width of the space rune a string starts with, 0 if it starts with none; likewise for the
  rune a string ends with, on the reversed string.\<close>

definition space_at :: "string \<Rightarrow> nat" where
  "space_at s = (case s of
       [] \<Rightarrow> 0
     | c # s1 \<Rightarrow>
         if is_ascii c then (if ascii_space c then 1 else 0)
         else (case s1 of
            [] \<Rightarrow> 0
          | d # s2 \<Rightarrow>
              if unicode_space2 (byte_val c) (byte_val d) then 2
              else (case s2 of
                 [] \<Rightarrow> 0
               | e # _ \<Rightarrow> if unicode_space3 (byte_val c) (byte_val d) (byte_val e) then 3 else 0)))"

definition space_end :: "string \<Rightarrow> nat" where
  "space_end r = (case r of
       [] \<Rightarrow> 0
     | c # r1 \<Rightarrow>
         if is_ascii c then (if ascii_space c then 1 else 0)
         else (case r1 of
            [] \<Rightarrow> 0
          | d # r2 \<Rightarrow>
              if unicode_space2 (byte_val d) (byte_val c) then 2
              else (case r2 of
                 [] \<Rightarrow> 0
               | e # _ \<Rightarrow> if unicode_space3 (byte_val e) (byte_val d) (byte_val c) then 3 else 0)))"

lemma space_at_Nil [simp]: "space_at [] = 0"
  by (simp add: space_at_def)

lemma space_end_Nil [simp]: "space_end [] = 0"
  by (simp add: space_end_def)

lemma space_at_drop: "0 < space_at s \<Longrightarrow> length s - space_at s < length s"
  by (cases s) auto

lemma space_end_drop: "0 < space_end s \<Longrightarrow> length s - space_end s < length s"
  by (cases s) auto

function trim_left :: "string \<Rightarrow> string" where
  "trim_left s = (if space_at s = 0 then s else trim_left (drop (space_at s) s))"
  by pat_completeness auto
termination
  by (relation "measure length") (auto intro: space_at_drop)

function trim_end :: "string \<Rightarrow> string" where
  "trim_end r = (if space_end r = 0 then r else trim_end (drop (space_end r) r))"
  by pat_completeness auto
termination
  by (relation "measure length") (auto intro: space_end_drop)

declare trim_left.simps [simp del] trim_end.simps [simp del]

definition trim_right :: "string \<Rightarrow> string" where
  "trim_right s = rev (trim_end (rev s))"

definition trim_space :: "string \<Rightarrow> string" where
  "trim_space s = trim_right (trim_left s)"

text \<open>\<open>strings.Fields\<close>: the maximal runs of bytes that are not part of a space rune.\<close>

function take_field :: "string \<Rightarrow> string" where
  "take_field s = (if s = [] \<or> space_at s \<noteq> 0 then [] else hd s # take_field (tl s))"
  by pat_completeness auto
termination
  by (relation "measure length") auto

declare take_field.simps [simp del]

lemma take_field_Nil: "take_field s = [] \<longleftrightarrow> s = [] \<or> space_at s \<noteq> 0"
  by (subst take_field.simps) auto

lemma trim_left_length: "length (trim_left s) \<le> length s"
proof (induction s rule: trim_left.induct)
  case (1 s)
  then show ?case
    by (subst trim_left.simps) (auto intro: order_trans)
qed

lemma trim_left_space_at [simp]: "space_at (trim_left s) = 0"
proof (induction s rule: trim_left.induct)
  case (1 s)
  then show ?case
    by (subst trim_left.simps) auto
qed

lemma trim_end_space_end [simp]: "space_end (trim_end s) = 0"
proof (induction s rule: trim_end.induct)
  case (1 s)
  then show ?case
    by (subst trim_end.simps) auto
qed

function str_fields :: "string \<Rightarrow> string list" where
  "str_fields s =
     (let t = trim_left s in
      if t = [] then [] else take_field t # str_fields (drop (length (take_field t)) t))"
  by pat_completeness auto
termination
proof (relation "measure length", simp)
  fix s t
  assume "t = trim_left s" "t \<noteq> []"
  then have "take_field t \<noteq> []" "length t \<le> length s" "t \<noteq> []"
    using trim_left_length[of s] by (simp_all add: take_field_Nil)
  then show "(drop (length (take_field t)) t, s) \<in> measure length"
    by (cases t; cases "take_field t") auto
qed

declare str_fields.simps [simp del]

subsection \<open>Digits and letters\<close>

definition digit_ranges :: "(nat \<times> nat) list" where
  "digit_ranges =
    [(1632, 1641), (1776, 1785), (1984, 1993), (2406, 2415), (2534, 2543), (2662, 2671),
     (2790, 2799), (2918, 2927), (3046, 3055), (3174, 3183), (3302, 3311), (3430, 3439),
     (3558, 3567), (3664, 3673), (3792, 3801), (3872, 3881), (4160, 4169), (4240, 4249),
     (6112, 6121), (6160, 6169), (6470, 6479), (6608, 6617), (6784, 6793), (6800, 6809),
     (6992, 7001), (7088, 7097), (7232, 7241), (7248, 7257), (42528, 42537), (43216, 43225),
     (43264, 43273), (43472, 43481), (43504, 43513), (43600, 43609), (44016, 44025), (65296, 65305),
     (66720, 66729), (68912, 68921), (69734, 69743), (69872, 69881), (69942, 69951), (70096, 70105),
     (70384, 70393), (70736, 70745), (70864, 70873), (71248, 71257), (71360, 71369), (71472, 71481),
     (71904, 71913), (72016, 72025), (72784, 72793), (73040, 73049), (73120, 73129), (73552, 73561),
     (92768, 92777), (92864, 92873), (93008, 93017), (120782, 120831), (123200, 123209), (123632, 123641),
     (124144, 124153), (125264, 125273), (130032, 130041)]"

text \<open>\<open>unicode.IsDigit\<close>; \<open>unicode.IsLetter\<close> on the runes of one byte.\<close>

definition is_digit_rune :: "nat \<Rightarrow> bool" where
  "is_digit_rune r \<longleftrightarrow> 48 \<le> r \<and> r \<le> 57 \<or> list_ex (\<lambda>(lo, hi). lo \<le> r \<and> r \<le> hi) digit_ranges"

definition is_latin1_letter :: "nat \<Rightarrow> bool" where
  "is_latin1_letter r \<longleftrightarrow>
     65 \<le> r \<and> r \<le> 90 \<or> 97 \<le> r \<and> r \<le> 122 \<or> r = 170 \<or> r = 181 \<or> r = 186 \<or>
     192 \<le> r \<and> r \<le> 214 \<or> 216 \<le> r \<and> r \<le> 246 \<or> 248 \<le> r \<and> r \<le> 255"

definition digit :: "char \<Rightarrow> nat option" where
  "digit c = (if 48 \<le> byte_val c \<and> byte_val c \<le> 57 then Some (byte_val c - 48) else None)"

definition digit_char :: "nat \<Rightarrow> char" where
  "digit_char n = char_of (48 + n)"

text \<open>\<open>strconv.Itoa\<close> of a natural number, and the value of a digit string.\<close>

fun dec :: "nat \<Rightarrow> string" where
  "dec n = (if n < 10 then [digit_char n] else dec (n div 10) @ [digit_char (n mod 10)])"

declare dec.simps [simp del]

fun digits_val :: "nat \<Rightarrow> string \<Rightarrow> nat option" where
  "digits_val acc [] = Some acc"
| "digits_val acc (c # cs) =
     (case digit c of None \<Rightarrow> None | Some d \<Rightarrow> digits_val (10 * acc + d) cs)"

text \<open>\<open>strconv.ParseUint(s, 10, 64)\<close>: the value, and whether there was no error.  On a range error
  the value is the largest \<open>uint64\<close>, on a syntax error it is 0.\<close>

definition parse_uint64 :: "string \<Rightarrow> nat \<times> bool" where
  "parse_uint64 s =
     (if s = [] then (0, False)
      else case digits_val 0 s of
             None \<Rightarrow> (0, False)
           | Some n \<Rightarrow> if n < 2 ^ 64 then (n, True) else (2 ^ 64 - 1, False))"

text \<open>\<open>strconv.Atoi\<close> (64-bit \<open>int\<close>): \<open>None\<close> on an error.\<close>

definition atoi :: "string \<Rightarrow> int option" where
  "atoi s =
     (let (neg, ds) = (case s of [] \<Rightarrow> (False, []) | c # cs \<Rightarrow>
                          if c = CHR ''-'' then (True, cs) else if c = CHR ''+'' then (False, cs)
                          else (False, s))
      in if ds = [] then None
         else case digits_val 0 ds of
                None \<Rightarrow> None
              | Some n \<Rightarrow>
                  if neg then (if n \<le> 2 ^ 63 then Some (- int n) else None)
                  else if n < 2 ^ 63 then Some (int n) else None)"

subsection \<open>Evaluation\<close>

lemma bit_Suc_0_0 [simp]: "bit (Suc 0) 0"
  by (simp flip: One_nat_def)

lemmas go_string_defs [go_str] =
  byte_val_def is_ascii_def contains_def index_byte_def contains_any_def cont_def rune_error_def
  decode_rune_def runes_def encode_rune_def lower_byte_def upper_byte_def to_lower_def
  fold_rune_def equal_fold_def ascii_space_def unicode_space2_def unicode_space3_def space_at_def
  space_end_def trim_left.simps trim_end.simps trim_right_def trim_space_def take_field.simps
  str_fields.simps is_latin1_letter_def digit_def digit_char_def dec.simps parse_uint64_def atoi_def
  char_of_def

subsection \<open>Searching\<close>

lemma has_prefix_iff: "has_prefix s p \<longleftrightarrow> (\<exists>t. s = p @ t)"
  by (induction s p rule: has_prefix.induct) auto

lemma index_of_Some: "index_of s sub = Some i \<Longrightarrow> \<exists>v. s = take i s @ sub @ v"
proof (induction s sub arbitrary: i rule: index_of.induct)
  case (1 sub)
  then show ?case
    by (auto split: if_splits)
next
  case (2 c cs sub)
  then show ?case
    by (auto simp: has_prefix_iff split: if_splits)
qed

lemma contains_iff: "contains s sub \<longleftrightarrow> (\<exists>u v. s = u @ sub @ v)"
proof
  assume "contains s sub"
  then show "\<exists>u v. s = u @ sub @ v"
    unfolding contains_def using index_of_Some by fastforce
next
  assume "\<exists>u v. s = u @ sub @ v"
  then obtain u v where s: "s = u @ sub @ v"
    by blast
  have "index_of (u @ sub @ v) sub \<noteq> None"
  proof (induction u)
    case Nil
    show ?case
    proof (cases "sub @ v")
      case (Cons a as)
      then have "has_prefix (a # as) sub"
        by (metis has_prefix_iff)
      then show ?thesis
        using Cons by simp
    qed simp
  qed auto
  then show "contains s sub"
    by (simp add: contains_def s)
qed

lemma contains_refl [simp]: "contains s s"
  using contains_iff[of s s] append_Nil append_Nil2 by metis

lemma contains_append1: "contains s x \<Longrightarrow> contains (s @ t) x"
  by (metis append.assoc contains_iff)

lemma contains_append2: "contains t x \<Longrightarrow> contains (s @ t) x"
  by (metis append.assoc contains_iff)

subsection \<open>Splitting and joining\<close>

lemma split_on_not_Nil [simp]: "split_on d s \<noteq> []"
  by (induction s) (auto split: list.splits)

lemma split_on_free: "w \<in> set (split_on d s) \<Longrightarrow> d \<notin> set w"
  by (induction s arbitrary: w) (auto split: if_splits list.splits)

lemma split_on_no_sep: "d \<notin> set w \<Longrightarrow> split_on d w = [w]"
  by (induction w) auto

lemma split_on_append: "d \<notin> set w \<Longrightarrow> split_on d (w @ d # s) = w # split_on d s"
  by (induction w) auto

lemma split_join: "xs \<noteq> [] \<Longrightarrow> \<forall>x \<in> set xs. d \<notin> set x \<Longrightarrow> split_on d (join [d] xs) = xs"
proof (induction xs)
  case (Cons x xs)
  then show ?case
    by (cases xs) (auto simp: split_on_no_sep split_on_append)
qed simp

lemma join_Cons: "xs \<noteq> [] \<Longrightarrow> join sep (x # xs) = x @ sep @ join sep xs"
  by (cases xs) auto

lemma join_Cons_Cons: "join sep ((c # w) # ws) = c # join sep (w # ws)"
  by (cases ws) auto

lemma join_split: "join [d] (split_on d s) = s"
proof (induction s)
  case (Cons c cs)
  then show ?case
    by (cases "split_on d cs") (auto simp: join_Cons join_Cons_Cons)
qed simp

subsection \<open>Trimming\<close>

lemma trim_left_suffix: "\<exists>u. s = u @ trim_left s"
proof (induction s rule: trim_left.induct)
  case (1 s)
  show ?case
  proof (cases "space_at s = 0")
    case True
    then show ?thesis
      by (subst trim_left.simps) simp
  next
    case False
    then obtain u where "drop (space_at s) s = u @ trim_left (drop (space_at s) s)"
      using "1.IH" by blast
    then have "s = (take (space_at s) s @ u) @ trim_left (drop (space_at s) s)"
      by (metis append.assoc append_take_drop_id)
    moreover have "trim_left s = trim_left (drop (space_at s) s)"
      using False by (subst trim_left.simps) simp
    ultimately show ?thesis
      by metis
  qed
qed

lemma trim_end_suffix: "\<exists>u. s = u @ trim_end s"
proof (induction s rule: trim_end.induct)
  case (1 s)
  show ?case
  proof (cases "space_end s = 0")
    case True
    then show ?thesis
      by (subst trim_end.simps) simp
  next
    case False
    then obtain u where "drop (space_end s) s = u @ trim_end (drop (space_end s) s)"
      using "1.IH" by blast
    then have "s = (take (space_end s) s @ u) @ trim_end (drop (space_end s) s)"
      by (metis append.assoc append_take_drop_id)
    moreover have "trim_end s = trim_end (drop (space_end s) s)"
      using False by (subst trim_end.simps) simp
    ultimately show ?thesis
      by metis
  qed
qed

lemma trim_right_prefix: "\<exists>u. s = trim_right s @ u"
  using trim_end_suffix[of "rev s"] unfolding trim_right_def
  by (metis rev_append rev_rev_ident)

lemma trim_space_infix: "\<exists>u v. s = u @ trim_space s @ v"
  unfolding trim_space_def using trim_left_suffix trim_right_prefix by metis

lemma set_trim_space: "set (trim_space s) \<subseteq> set s"
proof -
  obtain u v where "s = u @ trim_space s @ v"
    using trim_space_infix by blast
  then have "set s = set u \<union> set (trim_space s) \<union> set v"
    by (metis set_append sup_assoc)
  then show ?thesis
    by blast
qed

text \<open>A string is \<open>tidy\<close> when it neither starts nor ends with a space.\<close>

definition tidy :: "string \<Rightarrow> bool" where
  "tidy s \<longleftrightarrow> space_at s = 0 \<and> space_end (rev s) = 0"

lemma trim_space_tidy_id [simp]: "tidy s \<Longrightarrow> trim_space s = s"
  unfolding tidy_def trim_space_def trim_right_def
  by (subst trim_left.simps, simp, subst trim_end.simps, simp)

lemma trim_space_Nil [simp]: "trim_space [] = []"
  by (simp add: tidy_def)

text \<open>Dropping bytes at the end never creates a space at the front, unless nothing is left.\<close>

lemma space_at_prefix: "space_at (p @ u) = 0 \<Longrightarrow> space_at p = 0"
  by (auto simp: space_at_def split: list.splits if_splits)

lemma tidy_trim_space [simp]: "tidy (trim_space s)"
proof -
  obtain u where "trim_left s = trim_right (trim_left s) @ u"
    using trim_right_prefix by blast
  then have "space_at (trim_space s) = 0"
    unfolding trim_space_def by (metis space_at_prefix trim_left_space_at)
  then show ?thesis
    by (simp add: tidy_def trim_space_def trim_right_def)
qed

lemma trim_space_idem [simp]: "trim_space (trim_space s) = trim_space s"
  by simp

text \<open>A string that starts with no space does not vanish when it is trimmed.\<close>

lemma space_end_all: "space_end r \<noteq> 0 \<Longrightarrow> length r \<le> space_end r \<Longrightarrow> space_at (rev r) \<noteq> 0"
  by (cases r; cases "tl r"; cases "tl (tl r)")
    (auto simp: space_end_def space_at_def is_ascii_def unicode_space2_def unicode_space3_def split: if_splits)

lemma trim_end_Nil: "trim_end r = [] \<Longrightarrow> r \<noteq> [] \<Longrightarrow> space_at (rev r) \<noteq> 0"
proof (induction r rule: trim_end.induct)
  case (1 r)
  let ?r = "drop (space_end r) r"
  have se: "space_end r \<noteq> 0"
    using "1.prems" by (subst (asm) trim_end.simps) (auto split: if_splits)
  show ?case
  proof (cases "?r = []")
    case True
    then show ?thesis
      using se by (intro space_end_all) auto
  next
    case False
    have "trim_end ?r = []"
      using "1.prems" se by (subst (asm) trim_end.simps) simp
    then have "space_at (rev ?r) \<noteq> 0"
      using "1.IH" se False by blast
    moreover have "rev r = rev ?r @ rev (take (space_end r) r)"
      by (metis append_take_drop_id rev_append)
    ultimately show ?thesis
      using space_at_prefix[of "rev ?r" "rev (take (space_end r) r)"] by auto
  qed
qed

lemma trim_left_id: "space_at s = 0 \<Longrightarrow> trim_left s = s"
  by (subst trim_left.simps) simp

lemma trim_space_not_Nil: "space_at s = 0 \<Longrightarrow> s \<noteq> [] \<Longrightarrow> trim_space s \<noteq> []"
  using trim_end_Nil[of "rev s"] by (auto simp: trim_space_def trim_right_def trim_left_id)

text \<open>An ASCII byte ends whatever precedes it: no space rune straddles it.\<close>

lemma space_at_append_ascii:
  assumes "p \<noteq> []" "space_at p = 0" "is_ascii c"
  shows "space_at (p @ c # u) = 0"
proof -
  have no2: "\<not> unicode_space2 x (byte_val c)" and no3: "\<not> unicode_space3 x (byte_val c) y"
    "\<not> unicode_space3 x y (byte_val c)" for x y
    using assms(3) by (auto simp: is_ascii_def unicode_space2_def unicode_space3_def)
  obtain a q where p: "p = a # q"
    using assms(1) by (cases p) auto
  show ?thesis
  proof (cases q)
    case Nil
    then show ?thesis
      using assms(2) p no2 no3 by (auto simp: space_at_def split: list.splits)
  next
    case (Cons b r)
    then show ?thesis
      using assms(2) p no3 by (cases r) (auto simp: space_at_def split: if_splits)
  qed
qed

lemma space_ends_ascii: "is_ascii c \<Longrightarrow> \<not> ascii_space c \<Longrightarrow> space_at (c # u) = 0 \<and> space_end (c # u) = 0"
  by (simp add: space_at_def space_end_def)

lemma index_byte_Cons: "index_byte (c # cs) d = (if c = d then Some 0 else map_option Suc (index_byte cs d))"
  by (simp add: index_byte_def)

lemma index_byte_Nil: "index_byte [] d = None"
  by (simp add: index_byte_def)

lemma index_byte_append: "d \<notin> set p \<Longrightarrow> index_byte (p @ d # u) d = Some (length p)"
  by (induction p) (auto simp: index_byte_Cons)

lemma index_byte_None: "index_byte s d = None \<longleftrightarrow> d \<notin> set s"
  by (induction s) (auto simp: index_byte_Cons index_byte_Nil)

lemma index_byte_Some: "index_byte s d = Some i \<Longrightarrow> i < length s \<and> s ! i = d \<and> d \<notin> set (take i s)"
proof (induction s arbitrary: i)
  case (Cons c cs)
  then show ?case
    by (cases i) (auto simp: index_byte_Cons split: if_splits)
qed (simp add: index_byte_Nil)

subsection \<open>Lower case\<close>

lemma to_lower_ascii: "list_all is_ascii s \<Longrightarrow> to_lower s = map lower_byte s"
  by (simp add: to_lower_def)

lemma to_lower_length: "list_all is_ascii s \<Longrightarrow> length (to_lower s) = length s"
  by (simp add: to_lower_ascii)

lemma lower_byte_ascii: "is_ascii c \<Longrightarrow> is_ascii (lower_byte c)"
  by (auto simp: lower_byte_def is_ascii_def byte_val_def)

lemma lower_byte_idem [simp]: "lower_byte (lower_byte c) = lower_byte c"
  by (auto simp: lower_byte_def byte_val_def)

lemma to_lower_idem: "list_all is_ascii s \<Longrightarrow> to_lower (to_lower s) = to_lower s"
proof -
  assume s: "list_all is_ascii s"
  then have "list_all is_ascii (map lower_byte s)"
    by (simp add: list.pred_map list_all_iff lower_byte_ascii)
  then show ?thesis
    using s by (simp add: to_lower_ascii o_def)
qed

subsection \<open>Decimal numbers\<close>

lemma digit_digit_char [simp]: "d < 10 \<Longrightarrow> digit (digit_char d) = Some d"
  by (simp add: digit_def digit_char_def byte_val_def)

lemma digit_char_0_iff: "d < 10 \<Longrightarrow> digit_char d = CHR ''0'' \<longleftrightarrow> d = 0"
proof -
  assume d: "d < 10"
  have "digit (CHR ''0'') = Some 0"
    by (simp add: digit_def byte_val_def)
  then show ?thesis
    using digit_digit_char[OF d] by (auto simp: digit_char_def char_of_def)
qed

lemma digits_val_append:
  "digits_val acc (xs @ ys) = Option.bind (digits_val acc xs) (\<lambda>a. digits_val a ys)"
  by (induction xs arbitrary: acc) (auto split: option.splits)

lemma digits_val_dec: "digits_val 0 (dec n) = Some n"
proof (induction n rule: dec.induct)
  case (1 n)
  then show ?case
    by (subst dec.simps) (auto simp: digits_val_append)
qed

lemma dec_inj: "dec m = dec n \<Longrightarrow> m = n"
  by (metis digits_val_dec option.inject)

lemma dec_not_Nil [simp]: "dec n \<noteq> []"
  by (subst dec.simps) simp

lemma dec_digits: "c \<in> set (dec n) \<Longrightarrow> digit c \<noteq> None"
proof (induction n rule: dec.induct)
  case (1 n)
  then show ?case
    by (subst (asm) (2) dec.simps) (auto split: if_splits)
qed

lemma atoi_dec: "n < 2 ^ 63 \<Longrightarrow> atoi (dec n) = Some (int n)"
proof -
  assume n: "n < 2 ^ 63"
  obtain c cs where c: "dec n = c # cs"
    by (cases "dec n") auto
  then have "digit c \<noteq> None"
    using dec_digits[of c n] by simp
  then have "c \<noteq> CHR ''-''" "c \<noteq> CHR ''+''"
    by (auto simp: digit_def byte_val_def)
  then show ?thesis
    using n digits_val_dec[of n] by (simp add: atoi_def c)
qed

end
