(* ===== verification/GoRegexp.thy ===== *)
theory GoRegexp
  imports GoStrings
begin

text \<open>
  What the program uses of Go's \<open>regexp\<close> package.  A pattern is a value of \<open>rx\<close>; \<open>matches\<close> lists the
  ways it matches at a position in the order of preference of Go (leftmost-first: an alternative
  before the next, a greedy loop from its longest run down), so that the head of the list is the
  match that \<open>Find\<close> reports.  The text is matched rune by rune; a byte that is no UTF-8 counts as the
  rune U+FFFD.  Every loop of the patterns of the program is over one set of runes, so that a loop
  is a run of such runes and \<open>matches\<close> needs no fuel.
\<close>

subsection \<open>Runes with their bytes\<close>

type_synonym glyph = "nat \<times> string"

function glyphs :: "string \<Rightarrow> glyph list" where
  "glyphs s =
     (if s = [] then []
      else let (r, n) = decode_rune (map byte_val s) in (r, take n s) # glyphs (drop n s))"
  by pat_completeness auto
termination
proof (relation "measure length", simp)
  fix s x r n
  assume s: "s \<noteq> []" and x: "x = decode_rune (map byte_val s)" and rn: "(r, n) = x"
  have "1 \<le> n"
    using decode_rune_width[of "map byte_val s"] unfolding x[symmetric] rn[symmetric] by simp
  then show "(drop n s, s) \<in> measure length"
    using s by (cases s) auto
qed

declare glyphs.simps [simp del]

lemma glyphs_code [code]:
  "glyphs [] = []"
  "glyphs (c # s) = (case decode_rune (map byte_val (c # s)) of (r, n) \<Rightarrow> (r, take n (c # s)) # glyphs (drop n (c # s)))"
  by (subst glyphs.simps, simp)+

definition text_of :: "glyph list \<Rightarrow> string" where
  "text_of gs = concat (map snd gs)"

subsection \<open>Patterns\<close>

datatype rx =
    RNil
  | RSet "nat \<Rightarrow> bool"
  | RSeq rx rx
  | RAlt rx rx
  | ROpt rx
  | RStar "nat \<Rightarrow> bool"
  | RLazy "nat \<Rightarrow> bool"
  | RGroup nat rx
  | RBol
  | REol
  | RWordB

text \<open>A position: the runes before it, last first, those after it, and the groups captured so far.\<close>

type_synonym position = "glyph list \<times> glyph list \<times> (nat \<times> string) list"

text \<open>\<open>p*\<close> from the longest run to the shortest; \<open>p+?\<close> from the shortest to the longest.\<close>

fun star_runs :: "(nat \<Rightarrow> bool) \<Rightarrow> glyph list \<Rightarrow> glyph list \<Rightarrow> (glyph list \<times> glyph list) list" where
  "star_runs p b [] = [(b, [])]"
| "star_runs p b (g # a) = (if p (fst g) then star_runs p (g # b) a else []) @ [(b, g # a)]"

fun lazy_runs :: "(nat \<Rightarrow> bool) \<Rightarrow> glyph list \<Rightarrow> glyph list \<Rightarrow> (glyph list \<times> glyph list) list" where
  "lazy_runs p b [] = []"
| "lazy_runs p b (g # a) = (if p (fst g) then (g # b, a) # lazy_runs p (g # b) a else [])"

definition is_word_rune :: "nat \<Rightarrow> bool" where
  "is_word_rune r \<longleftrightarrow> 48 \<le> r \<and> r \<le> 57 \<or> 65 \<le> r \<and> r \<le> 90 \<or> r = 95 \<or> 97 \<le> r \<and> r \<le> 122"

definition at_word :: "glyph list \<Rightarrow> bool" where
  "at_word gs \<longleftrightarrow> (case gs of [] \<Rightarrow> False | g # _ \<Rightarrow> is_word_rune (fst g))"

definition at_newline :: "glyph list \<Rightarrow> bool" where
  "at_newline gs \<longleftrightarrow> (case gs of [] \<Rightarrow> True | g # _ \<Rightarrow> fst g = 10)"

fun matches :: "rx \<Rightarrow> position \<Rightarrow> position list" where
  "matches RNil st = [st]"
| "matches (RSet p) (b, a, c) = (case a of [] \<Rightarrow> [] | g # a' \<Rightarrow> if p (fst g) then [(g # b, a', c)] else [])"
| "matches (RSeq r s) st = concat (map (matches s) (matches r st))"
| "matches (RAlt r s) st = matches r st @ matches s st"
| "matches (ROpt r) st = matches r st @ [st]"
| "matches (RStar p) (b, a, c) = map (\<lambda>(b', a'). (b', a', c)) (star_runs p b a)"
| "matches (RLazy p) (b, a, c) = map (\<lambda>(b', a'). (b', a', c)) (lazy_runs p b a)"
| "matches (RGroup n r) (b, a, c) =
     map (\<lambda>(b', a', c'). (b', a', (n, text_of (take (length a - length a') a)) # c')) (matches r (b, a, c))"
| "matches RBol (b, a, c) = (if at_newline b then [(b, a, c)] else [])"
| "matches REol (b, a, c) = (if at_newline a then [(b, a, c)] else [])"
| "matches RWordB (b, a, c) = (if at_word b \<noteq> at_word a then [(b, a, c)] else [])"

text \<open>The leftmost match from a position on: where it starts and where it ends.\<close>

fun search :: "rx \<Rightarrow> glyph list \<Rightarrow> glyph list \<Rightarrow> (glyph list \<times> glyph list \<times> position) option" where
  "search r b a =
     (case matches r (b, a, []) of
        st # _ \<Rightarrow> Some (b, a, st)
      | [] \<Rightarrow> (case a of [] \<Rightarrow> None | g # a' \<Rightarrow> search r (g # b) a'))"

declare search.simps [simp del]

text \<open>\<open>FindStringSubmatch\<close>: the groups of the match; a group that took no part is empty.\<close>

definition find_submatch :: "rx \<Rightarrow> string \<Rightarrow> (nat \<Rightarrow> string) option" where
  "find_submatch r s =
     (case search r [] (glyphs s) of
        None \<Rightarrow> None
      | Some (b, a, (b', a', c)) \<Rightarrow>
          Some (\<lambda>n. if n = 0 then text_of (take (length a - length a') a)
                    else case map_of c n of Some t \<Rightarrow> t | None \<Rightarrow> []))"

definition match_string :: "rx \<Rightarrow> string \<Rightarrow> bool" where
  "match_string r s \<longleftrightarrow> find_submatch r s \<noteq> None"

text \<open>\<open>FindAllStringIndex\<close> for a pattern that matches no empty text: offset and text of each match.\<close>

function find_all :: "rx \<Rightarrow> glyph list \<Rightarrow> glyph list \<Rightarrow> (nat \<times> string) list" where
  "find_all r b a =
     (case search r b a of
        None \<Rightarrow> []
      | Some (b0, a0, (b', a', c)) \<Rightarrow>
          if length a' < length a
          then (length (text_of b0), text_of (take (length a0 - length a') a0)) # find_all r b' a'
          else [])"
  by pat_completeness auto
termination
  by (relation "measure (\<lambda>(r, b, a). length a)") auto

declare find_all.simps [simp del]

definition find_all_index :: "rx \<Rightarrow> string \<Rightarrow> nat list" where
  "find_all_index r s = map fst (find_all r [] (glyphs s))"

definition find_all_string :: "rx \<Rightarrow> string \<Rightarrow> string list" where
  "find_all_string r s = map snd (find_all r [] (glyphs s))"

subsection \<open>Building patterns\<close>

definition rc :: "char \<Rightarrow> nat" where
  "rc c = byte_val c"

text \<open>Sets of runes: a literal with or without \<open>(?i)\<close>, \<open>\s\<close>, \<open>\S\<close>, \<open>\d\<close>, \<open>.\<close>, a negated list, ranges.\<close>

definition one :: "char \<Rightarrow> nat \<Rightarrow> bool" where
  "one c r \<longleftrightarrow> r = rc c"

definition ci :: "char \<Rightarrow> nat \<Rightarrow> bool" where
  "ci c r \<longleftrightarrow> fold_rune r = fold_rune (rc c)"

definition sp :: "nat \<Rightarrow> bool" where
  "sp r \<longleftrightarrow> r = 9 \<or> r = 10 \<or> r = 12 \<or> r = 13 \<or> r = 32"

definition nsp :: "nat \<Rightarrow> bool" where
  "nsp r \<longleftrightarrow> \<not> sp r"

definition dg :: "nat \<Rightarrow> bool" where
  "dg r \<longleftrightarrow> 48 \<le> r \<and> r \<le> 57"

definition dot :: "nat \<Rightarrow> bool" where
  "dot r \<longleftrightarrow> r \<noteq> 10"

definition none_of :: "string \<Rightarrow> nat \<Rightarrow> bool" where
  "none_of cs r \<longleftrightarrow> \<not> list_ex (\<lambda>c. r = rc c) cs"

definition any_of :: "string \<Rightarrow> nat \<Rightarrow> bool" where
  "any_of cs r \<longleftrightarrow> list_ex (\<lambda>c. r = rc c) cs"

definition letter_digit :: "nat \<Rightarrow> bool" where
  "letter_digit r \<longleftrightarrow> dg r \<or> 65 \<le> r \<and> r \<le> 90 \<or> 97 \<le> r \<and> r \<le> 122"

definition hexd :: "nat \<Rightarrow> bool" where
  "hexd r \<longleftrightarrow> dg r \<or> 97 \<le> r \<and> r \<le> 102 \<or> 65 \<le> r \<and> r \<le> 70"

fun rseq :: "rx list \<Rightarrow> rx" where
  "rseq [] = RNil"
| "rseq [r] = r"
| "rseq (r # rs) = RSeq r (rseq rs)"

fun ralt :: "rx list \<Rightarrow> rx" where
  "ralt [] = RSet (\<lambda>x. False)"
| "ralt [r] = r"
| "ralt (r # rs) = RAlt r (ralt rs)"

definition plus_of :: "(nat \<Rightarrow> bool) \<Rightarrow> rx" where
  "plus_of p = RSeq (RSet p) (RStar p)"

definition lit :: "string \<Rightarrow> rx" where
  "lit s = rseq (map (\<lambda>c. RSet (one c)) s)"

definition cilit :: "string \<Rightarrow> rx" where
  "cilit s = rseq (map (\<lambda>c. RSet (ci c)) s)"

definition times :: "nat \<Rightarrow> rx \<Rightarrow> rx" where
  "times n r = rseq (replicate n r)"

abbreviation S0 :: rx where "S0 \<equiv> RStar sp"
abbreviation S1 :: rx where "S1 \<equiv> plus_of sp"
abbreviation D1 :: rx where "D1 \<equiv> plus_of dg"
abbreviation N1 :: rx where "N1 \<equiv> plus_of nsp"

lemmas rx_sets = rc_def one_def ci_def sp_def nsp_def dg_def dot_def none_of_def any_of_def
  letter_digit_def hexd_def is_word_rune_def

subsection \<open>What a match means\<close>

text \<open>The declarative reading: the ways in which a pattern may match at a position, in no order.\<close>

inductive rx_match :: "rx \<Rightarrow> position \<Rightarrow> position \<Rightarrow> bool" where
  m_nil: "rx_match RNil st st"
| m_set: "p (fst g) \<Longrightarrow> rx_match (RSet p) (b, g # a, c) (g # b, a, c)"
| m_seq: "rx_match r st st' \<Longrightarrow> rx_match s st' st'' \<Longrightarrow> rx_match (RSeq r s) st st''"
| m_altl: "rx_match r st st' \<Longrightarrow> rx_match (RAlt r s) st st'"
| m_altr: "rx_match s st st' \<Longrightarrow> rx_match (RAlt r s) st st'"
| m_opt: "rx_match r st st' \<Longrightarrow> rx_match (ROpt r) st st'"
| m_skip: "rx_match (ROpt r) st st"
| m_star: "\<forall>g \<in> set u. p (fst g) \<Longrightarrow> rx_match (RStar p) (b, u @ a, c) (rev u @ b, a, c)"
| m_lazy: "u \<noteq> [] \<Longrightarrow> \<forall>g \<in> set u. p (fst g) \<Longrightarrow> rx_match (RLazy p) (b, u @ a, c) (rev u @ b, a, c)"
| m_group: "rx_match r (b, u @ a, c) (b', a, c') \<Longrightarrow>
    rx_match (RGroup n r) (b, u @ a, c) (b', a, (n, text_of u) # c')"
| m_bol: "at_newline b \<Longrightarrow> rx_match RBol (b, a, c) (b, a, c)"
| m_eol: "at_newline a \<Longrightarrow> rx_match REol (b, a, c) (b, a, c)"
| m_word: "at_word b \<noteq> at_word a \<Longrightarrow> rx_match RWordB (b, a, c) (b, a, c)"

lemma run_Cons:
  "(\<exists>u. g # a = u @ a' \<and> b' = rev u @ b \<and> (\<forall>x \<in> set u. P x)) \<longleftrightarrow>
     a' = g # a \<and> b' = b \<or> P g \<and> (\<exists>u. a = u @ a' \<and> b' = rev u @ g # b \<and> (\<forall>x \<in> set u. P x))"
  (is "?L \<longleftrightarrow> ?R")
proof
  assume ?L
  then obtain u where "g # a = u @ a'" "b' = rev u @ b" "\<forall>x \<in> set u. P x"
    by blast
  then show ?R
    by (cases u) auto
next
  assume ?R
  then show ?L
  proof
    assume "P g \<and> (\<exists>u. a = u @ a' \<and> b' = rev u @ g # b \<and> (\<forall>x \<in> set u. P x))"
    then obtain u where "P g" "a = u @ a'" "b' = rev u @ g # b" "\<forall>x \<in> set u. P x"
      by blast
    then show ?L
      by (intro exI[of _ "g # u"]) auto
  qed auto
qed

lemma star_runs_iff:
  "(b', a') \<in> set (star_runs p b a) \<longleftrightarrow> (\<exists>u. a = u @ a' \<and> b' = rev u @ b \<and> (\<forall>g \<in> set u. p (fst g)))"
proof (induction p b a rule: star_runs.induct)
  case (2 p b g a)
  show ?case
    unfolding run_Cons using 2 by auto
qed auto

lemma lazy_runs_star:
  "set (lazy_runs p b a) = (case a of [] \<Rightarrow> {} | g # a' \<Rightarrow> if p (fst g) then set (star_runs p (g # b) a') else {})"
proof (induction p b a rule: lazy_runs.induct)
  case (2 p b g a)
  show ?case
  proof (cases "p (fst g)")
    case True
    then have "set (lazy_runs p b (g # a)) = insert (g # b, a) (set (lazy_runs p (g # b) a))"
      by simp
    then show ?thesis
      unfolding "2.IH"[OF True] using True by (cases a) auto
  qed simp
qed simp

lemma lazy_runs_iff:
  "(b', a') \<in> set (lazy_runs p b a) \<longleftrightarrow>
   (\<exists>g u. p (fst g) \<and> a = (g # u) @ a' \<and> b' = rev u @ g # b \<and> (\<forall>g \<in> set u. p (fst g)))"
  unfolding lazy_runs_star by (cases a) (auto simp: star_runs_iff)

text \<open>The list of matches is sound and complete for the declarative reading.\<close>

lemma rx_match_consumes: "rx_match r st st' \<Longrightarrow> \<exists>u. fst (snd st) = u @ fst (snd st') \<and> fst st' = rev u @ fst st"
proof (induction rule: rx_match.induct)
  case (m_seq r st st' s st'')
  then show ?case
    by (metis append_assoc rev_append)
qed auto

inductive_cases rx_matchE:
  "rx_match RNil st st'" "rx_match (RSet p) st st'" "rx_match (RSeq r s) st st'" "rx_match (RAlt r s) st st'"
  "rx_match (ROpt r) st st'" "rx_match (RStar p) st st'" "rx_match (RLazy p) st st'"
  "rx_match (RGroup n r) st st'" "rx_match RBol st st'" "rx_match REol st st'" "rx_match RWordB st st'"

lemma matches_sound: "st' \<in> set (matches r st) \<Longrightarrow> rx_match r st st'"
proof (induction r st arbitrary: st' rule: matches.induct)
  case (6 p b a c)
  then obtain b' a' where st': "st' = (b', a', c)" "(b', a') \<in> set (star_runs p b a)"
    by auto
  then obtain u where "a = u @ a'" "b' = rev u @ b" "\<forall>g \<in> set u. p (fst g)"
    unfolding star_runs_iff by blast
  then show ?case
    unfolding st' by (auto intro: m_star)
next
  case (7 p b a c)
  then obtain b' a' where st': "st' = (b', a', c)" "(b', a') \<in> set (lazy_runs p b a)"
    by auto
  then obtain g u where "a = (g # u) @ a'" "b' = rev (g # u) @ b" "\<forall>x \<in> set (g # u). p (fst x)"
    unfolding lazy_runs_iff by auto
  then show ?case
    unfolding st' using m_lazy[of "g # u" p b a' c] by (metis list.distinct(1))
next
  case (8 n r b a c)
  then obtain b' a' c' where st': "st' = (b', a', (n, text_of (take (length a - length a') a)) # c')"
    "(b', a', c') \<in> set (matches r (b, a, c))"
    by auto
  have m: "rx_match r (b, a, c) (b', a', c')"
    by (rule "8.IH"[OF st'(2)])
  then obtain u where "a = u @ a'" "b' = rev u @ b"
    using rx_match_consumes by fastforce
  then show ?case
    unfolding st'(1) using m m_group[of r b u a' c b' c' n] by simp
next
  case (3 r s st)
  then obtain st1 where "st1 \<in> set (matches r st)" "st' \<in> set (matches s st1)"
    by auto
  then show ?case
    using "3.IH" m_seq by blast
qed (auto intro: rx_match.intros split: list.splits if_splits)

lemma matches_complete: "rx_match r st st' \<Longrightarrow> st' \<in> set (matches r st)"
proof (induction rule: rx_match.induct)
  case (m_star u p b a c)
  then have "(rev u @ b, a) \<in> set (star_runs p b (u @ a))"
    unfolding star_runs_iff by blast
  then show ?case
    by force
next
  case (m_lazy u p b a c)
  then obtain g v where "u = g # v"
    by (cases u) auto
  then have "(rev u @ b, a) \<in> set (lazy_runs p b (u @ a))"
    using m_lazy unfolding lazy_runs_star by (auto simp: star_runs_iff)
  then show ?case
    by force
next
  case (m_group r b u a c b' c' n)
  then show ?case
    by force
qed auto

lemma matches_iff: "st' \<in> set (matches r st) \<longleftrightarrow> rx_match r st st'"
  using matches_sound matches_complete by blast

subsection \<open>What is found lies in the text\<close>

lemma text_of_append [simp]: "text_of (u @ v) = text_of u @ text_of v"
  by (simp add: text_of_def)

lemma text_glyphs [simp]: "text_of (glyphs s) = s"
proof (induction s rule: glyphs.induct)
  case (1 s)
  show ?case
  proof (cases "s = []")
    case True
    then show ?thesis
      by (simp add: glyphs.simps text_of_def)
  next
    case False
    obtain r n where rn: "decode_rune (map byte_val s) = (r, n)"
      by (cases "decode_rune (map byte_val s)")
    have "glyphs s = (r, take n s) # glyphs (drop n s)"
      using False rn by (subst glyphs.simps) simp
    moreover have "text_of (glyphs (drop n s)) = drop n s"
      using "1.IH"[OF False rn[symmetric] refl] by simp
    ultimately show ?thesis
      by (simp add: text_of_def)
  qed
qed

lemma search_Some:
  "search r b a = Some (b0, a0, st) \<Longrightarrow> rev b @ a = rev b0 @ a0 \<and> length a0 \<le> length a \<and> rx_match r (b0, a0, []) st"
proof (induction r b a rule: search.induct)
  case (1 r b a)
  show ?case
  proof (cases "matches r (b, a, [])")
    case Nil
    then obtain g a' where a: "a = g # a'" "search r (g # b) a' = Some (b0, a0, st)"
      using "1.prems" by (subst (asm) search.simps) (auto split: list.splits)
    then show ?thesis
      using "1.IH"[OF Nil a(1) a(2)] by simp
  next
    case (Cons m ms)
    then have "b0 = b" "a0 = a" "st = m"
      using "1.prems" by (subst (asm) search.simps, simp)+
    then show ?thesis
      using Cons matches_sound[of m r "(b, a, [])"] by simp
  qed
qed

lemma search_None:
  "search r b a = None \<Longrightarrow> \<forall>u v. a = u @ v \<longrightarrow> (\<nexists>st. rx_match r (rev u @ b, v, []) st)"
proof (induction r b a rule: search.induct)
  case (1 r b a)
  have no: "matches r (b, a, []) = []"
    using "1.prems" by (subst (asm) search.simps) (auto split: list.splits)
  then have no': "\<nexists>st. rx_match r (b, a, []) st"
    using matches_complete by fastforce
  show ?case
  proof (intro allI impI)
    fix u v assume "a = u @ v"
    then show "\<nexists>st. rx_match r (rev u @ b, v, []) st"
    proof (cases u)
      case (Cons g u')
      then have "a = g # (u' @ v)" "search r (g # b) (u' @ v) = None"
        using \<open>a = u @ v\<close> "1.prems" no by (simp, subst (asm) search.simps, simp)
      then show ?thesis
        using "1.IH"[OF no] Cons by fastforce
    qed (use no' in simp)
  qed
qed

text \<open>\<open>MatchString\<close> is true exactly when some part of the text matches.\<close>

lemma match_string_iff:
  "match_string r s \<longleftrightarrow> (\<exists>u v st. glyphs s = u @ v \<and> rx_match r (rev u, v, []) st)"
proof
  assume "match_string r s"
  then obtain b a st where "search r [] (glyphs s) = Some (b, a, st)"
    by (auto simp: match_string_def find_submatch_def split: option.splits)
  then have "glyphs s = rev b @ a" "rx_match r (b, a, []) st"
    using search_Some by fastforce+
  then show "\<exists>u v st. glyphs s = u @ v \<and> rx_match r (rev u, v, []) st"
    by (metis rev_rev_ident)
next
  assume "\<exists>u v st. glyphs s = u @ v \<and> rx_match r (rev u, v, []) st"
  then have "search r [] (glyphs s) \<noteq> None"
    using search_None[of r "[]" "glyphs s"] unfolding append_Nil2 by blast
  then show "match_string r s"
    by (auto simp: match_string_def find_submatch_def split: option.splits)
qed

text \<open>Every captured group is a part of the text.\<close>

definition part_of :: "string \<Rightarrow> glyph list \<Rightarrow> bool" where
  "part_of t gs \<longleftrightarrow> (\<exists>u v w. gs = u @ v @ w \<and> t = text_of v)"

lemma rx_match_groups:
  "rx_match r st st' \<Longrightarrow> (n, t) \<in> set (snd (snd st')) \<Longrightarrow>
   (n, t) \<in> set (snd (snd st)) \<or> part_of t (rev (fst st') @ fst (snd st'))"
proof (induction arbitrary: n t rule: rx_match.induct)
  case (m_seq r st st' s st'')
  obtain u where "fst (snd st') = u @ fst (snd st'')" "fst st'' = rev u @ fst st'"
    using rx_match_consumes[OF m_seq.hyps(2)] by blast
  then have "rev (fst st'') @ fst (snd st'') = rev (fst st') @ fst (snd st')"
    by simp
  then show ?case
    using m_seq.IH(1)[of n t] m_seq.IH(2)[OF m_seq.prems] by auto
next
  case (m_group r b u a c b' c' k)
  have "b' = rev u @ b"
    using rx_match_consumes[OF m_group.hyps] by simp
  then have "part_of (text_of u) (rev b' @ a)"
    unfolding part_of_def by (intro exI[of _ "rev b"] exI[of _ u] exI[of _ a]) simp
  moreover have "(n, t) = (k, text_of u) \<or> (n, t) \<in> set c'"
    using m_group.prems by simp
  ultimately show ?case
    using m_group.IH[of n t] by auto
qed simp_all

lemma find_submatch_infix: "find_submatch r s = Some m \<Longrightarrow> \<exists>u v. s = u @ m n @ v"
proof -
  assume "find_submatch r s = Some m"
  then obtain b a b' a' c where sr: "search r [] (glyphs s) = Some (b, a, b', a', c)" and
    m: "m = (\<lambda>n. if n = 0 then text_of (take (length a - length a') a)
                 else case map_of c n of Some t \<Rightarrow> t | None \<Rightarrow> [])"
    by (auto simp: find_submatch_def split: option.splits)
  have st: "glyphs s = rev b @ a" "rx_match r (b, a, []) (b', a', c)"
    using search_Some[OF sr] by auto
  obtain w where w: "a = w @ a'" "b' = rev w @ b"
    using rx_match_consumes[OF st(2)] by auto
  have "part_of (m n) (glyphs s)"
  proof (cases "n = 0 \<or> map_of c n = None")
    case True
    have "part_of (text_of w) (glyphs s)" "part_of [] (glyphs s)"
      unfolding part_of_def st(1) w(1) by (blast, metis append_Nil concat.simps(1) list.simps(8) text_of_def)
    then show ?thesis
      using True unfolding m w(1) by auto
  next
    case False
    then obtain t where t: "map_of c n = Some t" "n \<noteq> 0"
      by auto
    then have "part_of t (glyphs s)"
      using rx_match_groups[OF st(2), of n t] map_of_SomeD[OF t(1)] st(1) w by simp
    then show ?thesis
      using t by (simp add: m)
  qed
  then show ?thesis
    unfolding part_of_def by (metis text_glyphs text_of_append)
qed

lemma find_all_index_part: "(i, t) \<in> set (find_all r b a) \<Longrightarrow> part_of t (rev b @ a)"
proof (induction r b a rule: find_all.induct)
  case (1 r b a)
  have "search r b a \<noteq> None"
  proof
    assume "search r b a = None"
    then show False
      using "1.prems" by (subst (asm) find_all.simps) simp
  qed
  then obtain b0 a0 b' a' c where sr: "search r b a = Some (b0, a0, b', a', c)"
    by (cases "search r b a") auto
  have st: "rev b @ a = rev b0 @ a0" "rx_match r (b0, a0, []) (b', a', c)"
    using search_Some[OF sr] by auto
  obtain w where w: "a0 = w @ a'" "b' = rev w @ b0"
    using rx_match_consumes[OF st(2)] by auto
  have "(length (text_of b0), text_of w) = (i, t) \<or> length a' < length a \<and> (i, t) \<in> set (find_all r b' a')"
    using "1.prems" sr w by (subst (asm) find_all.simps) (auto split: if_splits)
  then show ?case
  proof
    assume "(length (text_of b0), text_of w) = (i, t)"
    then show ?thesis
      unfolding part_of_def st(1) w(1) by blast
  next
    assume "length a' < length a \<and> (i, t) \<in> set (find_all r b' a')"
    then have "part_of t (rev b' @ a')"
      using "1.IH"[OF sr] by blast
    then show ?thesis
      unfolding st(1) w by simp
  qed
qed

end
