(* ===== verification/GoNet.thy ===== *)
theory GoNet
  imports GoStrings
begin

text \<open>
  What the program uses of Go's \<open>net\<close> package: addresses as byte slices of length 4 or 16, masks,
  the printed form of an address and its parser, hardware addresses, \<open>host:port\<close> strings.  The
  four-byte form is canonical: \<open>To4\<close> returns it (or nil, modelled by the empty list), and every
  stage keys its tables by the printed form of it.
\<close>

subsection \<open>Addresses\<close>

definition v4in6_prefix :: "byte list" where
  "v4in6_prefix = [0, 0, 0, 0, 0, 0, 0, 0, 0, 0, 255, 255]"

definition ipv4 :: "byte \<Rightarrow> byte \<Rightarrow> byte \<Rightarrow> byte \<Rightarrow> ip" where
  "ipv4 a b c d = v4in6_prefix @ [a, b, c, d]"

definition to4 :: "ip \<Rightarrow> ip" where
  "to4 p = (if length p = 4 then p
            else if length p = 16 \<and> take 12 p = v4in6_prefix then drop 12 p else [])"

definition is_ip4 :: "ip \<Rightarrow> bool" where
  "is_ip4 p \<longleftrightarrow> length p = 4"

definition ip_equal :: "ip \<Rightarrow> ip \<Rightarrow> bool" where
  "ip_equal p q =
     (if length p = length q then p = q
      else if length p = 4 \<and> length q = 16 then take 12 q = v4in6_prefix \<and> p = drop 12 q
      else if length p = 16 \<and> length q = 4 then take 12 p = v4in6_prefix \<and> q = drop 12 p
      else False)"

subsection \<open>Masks and networks\<close>

definition cidr_mask4 :: "nat \<Rightarrow> byte list" where
  "cidr_mask4 n = map (\<lambda>i. if n \<ge> 8 * i + 8 then 255 else if n \<le> 8 * i then 0
                              else NOT (mask (8 - (n - 8 * i)))) [0, 1, 2, 3]"

text \<open>\<open>simpleMaskLength\<close>: the number of leading ones, \<open>None\<close> if a one follows a zero.\<close>

fun mask_bits :: "bool list \<Rightarrow> nat option" where
  "mask_bits [] = Some 0"
| "mask_bits (b # bs) =
     (if b then map_option Suc (mask_bits bs) else if True \<in> set bs then None else Some 0)"

definition byte_bits :: "byte \<Rightarrow> bool list" where
  "byte_bits b = map (bit b) [7, 6, 5, 4, 3, 2, 1, 0]"

definition mask_size :: "byte list \<Rightarrow> nat \<times> nat" where
  "mask_size m = (case mask_bits (concat (map byte_bits m)) of
                    None \<Rightarrow> (0, 0) | Some n \<Rightarrow> (n, 8 * length m))"

definition and_bytes :: "byte list \<Rightarrow> byte list \<Rightarrow> byte list" where
  "and_bytes = map2 (AND)"

definition ip_mask :: "ip \<Rightarrow> byte list \<Rightarrow> ip" where
  "ip_mask p m =
     (let m1 = (if length m = 16 \<and> length p = 4 \<and> take 12 m = replicate 12 255 then drop 12 m else m);
          p1 = (if length m1 = 4 \<and> length p = 16 \<and> take 12 p = v4in6_prefix then drop 12 p else p)
      in if length p1 \<noteq> length m1 then [] else and_bytes p1 m1)"

record ipnet =
  net_ip :: ip
  net_mask :: "byte list"

definition network_number :: "ipnet \<Rightarrow> byte list \<times> byte list" where
  "network_number n =
     (let p = (if to4 (net_ip n) \<noteq> [] then to4 (net_ip n) else net_ip n) in
      if to4 (net_ip n) = [] \<and> length p \<noteq> 16 then ([], [])
      else if length (net_mask n) = 4 then (if length p = 4 then (p, net_mask n) else ([], []))
      else if length (net_mask n) = 16 then
        (p, if length p = 4 then drop 12 (net_mask n) else net_mask n)
      else ([], []))"

definition net_contains :: "ipnet \<Rightarrow> ip \<Rightarrow> bool" where
  "net_contains n p =
     (let (nn, m) = network_number n; q = (if to4 p \<noteq> [] then to4 p else p) in
      length q = length nn \<and> and_bytes nn m = and_bytes q m)"

subsection \<open>The printed form\<close>

definition hex_digit :: "nat \<Rightarrow> char" where
  "hex_digit n = ''0123456789abcdef'' ! n"

definition hex_byte :: "byte \<Rightarrow> string" where
  "hex_byte b = [hex_digit (unat b div 16), hex_digit (unat b mod 16)]"

definition hex_byte_upper :: "byte \<Rightarrow> string" where
  "hex_byte_upper b = map upper_byte (hex_byte b)"

definition hex_word :: "byte \<Rightarrow> byte \<Rightarrow> string" where
  "hex_word a b =
     (let n = 256 * unat a + unat b;
          ds = [hex_digit (n div 4096), hex_digit (n div 256 mod 16), hex_digit (n div 16 mod 16)]
      in dropWhile (\<lambda>c. c = CHR ''0'') ds @ [hex_digit (n mod 16)])"

fun words16 :: "byte list \<Rightarrow> (byte \<times> byte) list" where
  "words16 (a # b # r) = (a, b) # words16 r"
| "words16 _ = []"

definition zero_run :: "(byte \<times> byte) list \<Rightarrow> nat \<Rightarrow> nat" where
  "zero_run ws i = length (takeWhile (\<lambda>w. w = (0, 0)) (drop i ws))"

text \<open>The first longest run of at least two zero groups, as \<open>(start, length)\<close>.\<close>

definition longest_run :: "(byte \<times> byte) list \<Rightarrow> nat \<times> nat" where
  "longest_run ws =
     foldl (\<lambda>(zs, zl) i. let l = zero_run ws i in if l \<ge> 2 \<and> l > zl then (i, l) else (zs, zl))
           (255, 0) [0..<8]"

definition colon_join :: "(byte \<times> byte) list \<Rightarrow> string" where
  "colon_join ws = join '':'' (map (\<lambda>(a, b). hex_word a b) ws)"

definition ipv6_string :: "ip \<Rightarrow> string" where
  "ipv6_string p =
     (let ws = words16 p; (zs, zl) = longest_run ws in
      if zl = 0 then colon_join ws
      else colon_join (take zs ws) @ ''::'' @ colon_join (drop (zs + zl) ws))"

definition ip_string :: "ip \<Rightarrow> string" where
  "ip_string p =
     (if p = [] then ''<nil>''
      else if length p \<noteq> 4 \<and> length p \<noteq> 16 then ''?'' @ concat (map hex_byte p)
      else if to4 p \<noteq> [] then join ''.'' (map (\<lambda>b. dec (unat b)) (to4 p))
      else ipv6_string p)"

definition ipnet_string :: "ipnet \<Rightarrow> string" where
  "ipnet_string n =
     (let (nn, m) = network_number n in
      if nn = [] then ''<nil>''
      else case mask_bits (concat (map byte_bits m)) of
             None \<Rightarrow> ip_string nn @ ''/'' @ concat (map hex_byte m)
           | Some l \<Rightarrow> ip_string nn @ ''/'' @ dec l)"

definition mac_string :: "hwaddr \<Rightarrow> string" where
  "mac_string m = join '':'' (map hex_byte m)"

definition join_host_port :: "string \<Rightarrow> string \<Rightarrow> string" where
  "join_host_port host port =
     (if CHR '':'' \<in> set host then ''['' @ host @ '']:'' @ port else host @ '':'' @ port)"

subsection \<open>Parsing\<close>

text \<open>\<open>ParseIP\<close> decides by the first dot, colon or percent sign; a zone (percent sign) is refused.\<close>

definition parse_octet :: "string \<Rightarrow> byte option" where
  "parse_octet s =
     (if s = [] \<or> (length s > 1 \<and> hd s = CHR ''0'') then None
      else case digits_val 0 s of
             None \<Rightarrow> None | Some n \<Rightarrow> if n < 256 then Some (of_nat n) else None)"

fun all_some :: "'a option list \<Rightarrow> 'a list option" where
  "all_some [] = Some []"
| "all_some (None # xs) = None"
| "all_some (Some x # xs) = map_option ((#) x) (all_some xs)"

definition parse_ipv4 :: "string \<Rightarrow> byte list option" where
  "parse_ipv4 s =
     (let parts = split_on CHR ''.'' s in
      if length parts \<noteq> 4 then None else all_some (map parse_octet parts))"

definition hex_val :: "char \<Rightarrow> nat option" where
  "hex_val c =
     (let n = byte_val c in
      if 48 \<le> n \<and> n \<le> 57 then Some (n - 48)
      else if 97 \<le> n \<and> n \<le> 102 then Some (n - 87)
      else if 65 \<le> n \<and> n \<le> 70 then Some (n - 55) else None)"

fun hex_run :: "string \<Rightarrow> nat list \<times> string" where
  "hex_run [] = ([], [])"
| "hex_run (c # cs) =
     (case hex_val c of None \<Rightarrow> ([], c # cs) | Some d \<Rightarrow> (let (ds, r) = hex_run cs in (d # ds, r)))"

text \<open>The loop of \<open>parseIPv6\<close>: groups still allowed, position of the ellipsis, bytes so far, rest.\<close>

fun parse_v6_groups ::
  "nat \<Rightarrow> nat option \<Rightarrow> byte list \<Rightarrow> string \<Rightarrow> (nat option \<times> byte list) option" where
  "parse_v6_groups 0 ell acc s = (if s = [] then Some (ell, acc) else None)"
| "parse_v6_groups (Suc k) ell acc s =
     (let (ds, r) = hex_run s; n = foldl (\<lambda>a d. 16 * a + d) 0 ds in
      if ds = [] \<or> length ds > 4 then None
      else if r \<noteq> [] \<and> hd r = CHR ''.'' then
        (if (ell = None \<and> length acc \<noteq> 12) \<or> length acc + 4 > 16 then None
         else map_option (\<lambda>v4. (ell, acc @ v4)) (parse_ipv4 s))
      else
        let acc' = acc @ [of_nat (n div 256), of_nat (n mod 256)] in
        case r of
          [] \<Rightarrow> Some (ell, acc')
        | c # r1 \<Rightarrow>
            if c \<noteq> CHR '':'' \<or> r1 = [] then None
            else if hd r1 = CHR '':'' then
              (if ell \<noteq> None then None
               else if tl r1 = [] then Some (Some (length acc'), acc')
               else parse_v6_groups k (Some (length acc')) acc' (tl r1))
            else parse_v6_groups k ell acc' r1)"

definition parse_ipv6 :: "string \<Rightarrow> byte list option" where
  "parse_ipv6 s =
     (if CHR ''%'' \<in> set s then None
      else
        let lead = has_prefix s ''::''; rest = (if lead then drop 2 s else s) in
        if lead \<and> rest = [] then Some (replicate 16 0)
        else case parse_v6_groups 8 (if lead then Some 0 else None) [] rest of
          None \<Rightarrow> None
        | Some (ell, bs) \<Rightarrow>
            (case ell of
               None \<Rightarrow> if length bs < 16 then None else Some bs
             | Some e \<Rightarrow> if length bs < 16 then Some (take e bs @ replicate (16 - length bs) 0 @ drop e bs)
                         else None))"

definition parse_ip :: "string \<Rightarrow> ip" where
  "parse_ip s =
     (case dropWhile (\<lambda>c. c \<notin> {CHR ''.'', CHR '':'', CHR ''%''}) s of
        [] \<Rightarrow> []
      | c # _ \<Rightarrow>
          if c = CHR ''.'' then (case parse_ipv4 s of None \<Rightarrow> [] | Some p \<Rightarrow> v4in6_prefix @ p)
          else if c = CHR '':'' then (case parse_ipv6 s of None \<Rightarrow> [] | Some p \<Rightarrow> p)
          else [])"

text \<open>The host of \<open>net.SplitHostPort\<close>, \<open>None\<close> on an error.\<close>

definition split_host :: "string \<Rightarrow> string option" where
  "split_host s =
     (case last_index s CHR '':'' of
        None \<Rightarrow> None
      | Some i \<Rightarrow>
          if hd s = CHR ''['' then
            (case index_byte s CHR '']'' of
               None \<Rightarrow> None
             | Some e \<Rightarrow>
                 if e + 1 \<noteq> i then None
                 else if CHR ''['' \<in> set (drop 1 s) \<or> CHR '']'' \<in> set (drop (e + 1) s) then None
                 else Some (take (e - 1) (drop 1 s)))
          else if CHR '':'' \<in> set (take i s) \<or> CHR ''['' \<in> set s \<or> CHR '']'' \<in> set s then None
          else Some (take i s))"

subsection \<open>Facts\<close>

lemma to4_length: "length (to4 p) = 4 \<or> to4 p = []"
  by (auto simp: to4_def)

lemma to4_not_Nil [net_simps]: "to4 p \<noteq> [] \<longleftrightarrow> length (to4 p) = 4"
  using to4_length[of p] by auto

lemma to4_ip4 [simp, net_simps]: "length p = 4 \<Longrightarrow> to4 p = p"
  by (simp add: to4_def)

lemma to4_idem [simp, net_simps]: "to4 (to4 p) = to4 p"
  using to4_length[of p] by (auto simp: to4_def)

lemma to4_Nil [simp, net_simps]: "to4 [] = []"
  by (simp add: to4_def)

lemma v4in6_length [simp]: "length v4in6_prefix = 12"
  by (simp add: v4in6_prefix_def)

lemma to4_v4in6 [simp, net_simps]: "length p = 4 \<Longrightarrow> to4 (v4in6_prefix @ p) = p"
  by (simp add: to4_def)

lemma ip_string_to4: "to4 p \<noteq> [] \<Longrightarrow> ip_string (to4 p) = ip_string p"
  by (auto simp: ip_string_def to4_def split: if_splits)

lemma ip_string_4: "length p = 4 \<Longrightarrow> ip_string p = join ''.'' (map (\<lambda>b. dec (unat b)) p)"
  by (auto simp: ip_string_def)

lemma ip_equal_4: "length p = 4 \<Longrightarrow> length q = 4 \<Longrightarrow> ip_equal p q \<longleftrightarrow> p = q"
  by (simp add: ip_equal_def)

lemma parse_octet_dec: "parse_octet (dec (unat (b :: byte))) = Some b"
proof -
  have lt: "unat b < 256"
    using unsigned_less[of b, where 'a = nat] by simp
  have "\<not> (length (dec n) > 1 \<and> hd (dec n) = CHR ''0'')" for n
  proof (induction n rule: dec.induct)
    case (1 n)
    show ?case
    proof (cases "n < 100")
      case True
      then show ?thesis
        by (subst (1 2) dec.simps, subst (1 2) dec.simps)
          (auto simp: digit_char_0_iff)
    next
      case False
      then have "length (dec (n div 10)) > 1"
        by (subst dec.simps) auto
      then have "hd (dec (n div 10)) \<noteq> CHR ''0''"
        using 1 False by simp
      then show ?thesis
        using False by (subst (1 2) dec.simps) auto
    qed
  qed
  then show ?thesis
    using lt by (simp add: parse_octet_def digits_val_dec)
qed

lemma dec_no_dot: "CHR ''.'' \<notin> set (dec n)"
  using dec_digits[of "CHR ''.''" n] by (auto simp: digit_def byte_val_def)

lemma all_some_map_Some: "(\<And>x. x \<in> set xs \<Longrightarrow> f x = Some (g x)) \<Longrightarrow> all_some (map f xs) = Some (map g xs)"
  by (induction xs) auto

lemma parse_ipv4_string: "length p = 4 \<Longrightarrow> parse_ipv4 (ip_string p) = Some p"
proof -
  assume p: "length p = 4"
  let ?f = "\<lambda>b. dec (unat (b :: byte))"
  have "split_on CHR ''.'' (join [CHR ''.''] (map ?f p)) = map ?f p"
    using p by (intro split_join) (auto simp: dec_no_dot)
  then have "split_on CHR ''.'' (ip_string p) = map ?f p"
    using p by (simp add: ip_string_4)
  moreover have "all_some (map parse_octet (map ?f p)) = Some p"
    using all_some_map_Some[of p "parse_octet \<circ> ?f" id] by (simp add: parse_octet_dec o_def)
  ultimately show ?thesis
    using p by (simp add: parse_ipv4_def)
qed

lemma ip_string_first_dot:
  "length p = 4 \<Longrightarrow>
   \<exists>r. dropWhile (\<lambda>c. c \<notin> {CHR ''.'', CHR '':'', CHR ''%''}) (ip_string p) = CHR ''.'' # r"
proof -
  assume p: "length p = 4"
  then obtain a q where q: "p = a # q" "length q = 3"
    by (cases p) auto
  have d: "c \<notin> {CHR ''.'', CHR '':'', CHR ''%''}" if "c \<in> set (dec (unat a))" for c
    using dec_digits[OF that] by (auto simp: digit_def byte_val_def)
  have "ip_string p = dec (unat a) @ CHR ''.'' # join ''.'' (map (\<lambda>b. dec (unat b)) q)"
    using q p by (cases q) (simp_all add: ip_string_4 join_Cons)
  then show ?thesis
    using d by (simp add: dropWhile_append)
qed

text \<open>The round trip every stage relies on when it reads an address back from its key.\<close>

lemma parse_ip_string: "length p = 4 \<Longrightarrow> to4 (parse_ip (ip_string p)) = p"
  using ip_string_first_dot[of p] parse_ipv4_string[of p]
  by (auto simp: parse_ip_def)

interpretation ipkey: key_codec ip_string "\<lambda>s. to4 (parse_ip s)" is_ip4
  by unfold_locales (simp add: is_ip4_def parse_ip_string)

lemma ip_string_not_Nil [simp]: "length p = 4 \<Longrightarrow> ip_string p \<noteq> []"
  using parse_ip_string[of p] by (auto simp: parse_ip_def)

end
