(* ===== verification/Device.thy ===== *)
theory Device
  imports GoNet
begin

text \<open>
  \<open>internal/device/device.go\<close>: the record of one discovered host, the inventory collected over
  SSH, and the two heuristics that guess a vendor from the inventory and a role from the vendor.
\<close>

subsection \<open>Records\<close>

definition StatusUp :: string where "StatusUp = ''up''"
definition StatusDown :: string where "StatusDown = ''down''"

definition TypeNetwork :: string where "TypeNetwork = ''Network device''"
definition TypeEnd :: string where "TypeEnd = ''End device''"
definition TypeUnknown :: string where "TypeUnknown = ''Unknown''"

record neighbor =
  LocalPort :: string
  RemoteName :: string
  RemotePort :: string
  RemoteID :: string

record iface_counters =
  IfName :: string
  Admin :: string
  Oper :: string
  InPackets :: "64 word"
  OutPackets :: "64 word"
  InBytes :: "64 word"
  OutBytes :: "64 word"
  InDrops :: "64 word"
  OutDrops :: "64 word"
  InErrors :: "64 word"
  OutErrors :: "64 word"

record sys_info =
  User :: string
  SysHostname :: string
  Model :: string
  Version :: string
  Uptime :: string
  Family :: string
  CPU :: string
  Memory :: string
  Temp :: string
  Neighbors :: "neighbor list"
  Interfaces :: "iface_counters list"

record device =
  IP :: ip
  MAC :: hwaddr
  Vendor :: string
  Hostname :: string
  Status :: string
  Type :: string
  SysInfo :: sys_info

text \<open>Go's zero values, which a composite literal leaves in the fields it does not name.\<close>

definition zero_neighbor :: neighbor where
  "zero_neighbor = \<lparr>LocalPort = [], RemoteName = [], RemotePort = [], RemoteID = []\<rparr>"

definition zero_counters :: iface_counters where
  "zero_counters = \<lparr>IfName = [], Admin = [], Oper = [], InPackets = 0, OutPackets = 0,
     InBytes = 0, OutBytes = 0, InDrops = 0, OutDrops = 0, InErrors = 0, OutErrors = 0\<rparr>"

definition zero_info :: sys_info where
  "zero_info = \<lparr>User = [], SysHostname = [], Model = [], Version = [], Uptime = [], Family = [],
     CPU = [], Memory = [], Temp = [], Neighbors = [], Interfaces = []\<rparr>"

definition zero_device :: device where
  "zero_device = \<lparr>IP = [], MAC = [], Vendor = [], Hostname = [], Status = [], Type = [],
     SysInfo = zero_info\<rparr>"

subsection \<open>Operations\<close>

definition Empty :: "sys_info \<Rightarrow> bool" where
  "Empty s \<longleftrightarrow>
     User s = [] \<and> SysHostname s = [] \<and> Model s = [] \<and> Version s = [] \<and> Uptime s = [] \<and>
     Family s = [] \<and> CPU s = [] \<and> Memory s = [] \<and> Temp s = [] \<and>
     length (Neighbors s) = 0 \<and> length (Interfaces s) = 0"

definition VendorUnset :: "string \<Rightarrow> bool" where
  "VendorUnset v \<longleftrightarrow>
     (let t = trim_space (to_lower v) in t = [] \<or> t = ''unknown'' \<or> t = ''randomized mac'')"

definition vendor_hints :: "(string \<times> string) list" where
  "vendor_hints =
    [(''junos'', ''Juniper''), (''juniper'', ''Juniper''),
     (''cisco'', ''Cisco''), (''ios-xe'', ''Cisco''), (''nx-os'', ''Cisco''), (''catalyst'', ''Cisco''),
     (''huawei'', ''Huawei''), (''vrp'', ''Huawei''),
     (''aruba'', ''Aruba''), (''procurve'', ''Aruba''),
     (''mikrotik'', ''MikroTik''), (''routeros'', ''MikroTik''),
     (''openwrt'', ''OpenWrt'')]"

definition InferVendor :: "sys_info \<Rightarrow> string" where
  "InferVendor s =
     (let blob = to_lower (Model s @ '' '' @ Version s @ '' '' @ Family s) in
      case find (\<lambda>(sub, vendor). contains blob sub) vendor_hints of
        Some (sub, vendor) \<Rightarrow> vendor
      | None \<Rightarrow>
         (let m = to_lower (trim_space (Model s)) in
          if has_prefix m ''ex'' \<and> contains m ''-'' then ''Juniper''
          else if has_prefix m ''qfx'' \<or> has_prefix m ''srx'' \<or> has_prefix m ''mx'' then ''Juniper''
          else if has_prefix m ''ws-'' \<or> has_prefix m ''c29'' \<or> has_prefix m ''isr'' \<or> has_prefix m ''asr''
            then ''Cisco''
          else if has_prefix m ''s57'' \<or> has_prefix m ''s67'' then ''Huawei''
          else
           (let v = to_lower (Version s) in
            if contains v ''r'' \<and> contains v ''.'' \<and> (contains v ''s'' \<or> has_prefix m ''ex'')
            then if length v > 0 \<and> 48 \<le> byte_val (v ! 0) \<and> byte_val (v ! 0) \<le> 57
                    \<and> contains_any v ''rR''
                 then ''Juniper'' else ''''
            else '''')))"

definition network_hints :: "string list" where
  "network_hints =
    [''cisco'', ''ubiquiti'', ''tp-link'', ''tplink'', ''netgear'', ''asus'',
     ''mikrotik'', ''aruba'', ''juniper'', ''hpe'', ''fortinet'',
     ''palo alto'', ''meraki'', ''ruckus'', ''extreme'', ''d-link'', ''dlink'',
     ''linksys'', ''zyxel'', ''engenius'', ''openwrt'', ''pfsense'']"

definition end_hints :: "string list" where
  "end_hints =
    [''apple'', ''samsung'', ''google'', ''microsoft'', ''intel'', ''dell'',
     ''lenovo'', ''sony'', ''lg'', ''amazon'', ''xiaomi'', ''hp'',
     ''raspberry'', ''espressif'', ''sonos'', ''roku'', ''philips'',
     ''vmware'', ''virtualbox'', ''qemu'', ''parallels'', ''nest'']"

definition InferType :: "string \<Rightarrow> string" where
  "InferType vendor =
     (let v = to_lower vendor in
      if v = [] \<or> v = ''unknown'' then TypeUnknown
      else if contains v ''randomized'' then TypeEnd
      else if list_ex (contains v) network_hints then TypeNetwork
      else if list_ex (contains v) end_hints then TypeEnd
      else if contains v ''realtek'' \<or> contains v ''broadcom'' then TypeEnd
      else TypeUnknown)"

subsection \<open>Facts\<close>

lemma Empty_zero_info [simp]: "Empty zero_info"
  by (simp add: Empty_def zero_info_def)

lemma Empty_iff: "Empty s \<longleftrightarrow> s = zero_info"
  by (cases s) (auto simp: Empty_def zero_info_def)

lemma type_consts_distinct [simp]:
  "TypeNetwork \<noteq> TypeEnd" "TypeEnd \<noteq> TypeNetwork" "TypeNetwork \<noteq> TypeUnknown"
  "TypeUnknown \<noteq> TypeNetwork" "TypeEnd \<noteq> TypeUnknown" "TypeUnknown \<noteq> TypeEnd"
  "TypeNetwork \<noteq> []" "TypeEnd \<noteq> []" "TypeUnknown \<noteq> []" "StatusUp \<noteq> []"
  by (simp_all add: TypeNetwork_def TypeEnd_def TypeUnknown_def StatusUp_def)

lemma InferType_range: "InferType v \<in> {TypeNetwork, TypeEnd, TypeUnknown}"
  by (simp add: InferType_def Let_def)

lemma InferType_not_Nil [simp]: "InferType v \<noteq> []"
  using InferType_range[of v] by auto

lemma InferType_hint:
  "to_lower v \<noteq> [] \<Longrightarrow> to_lower v \<noteq> ''unknown'' \<Longrightarrow> contains (to_lower v) h \<Longrightarrow>
   h \<in> set network_hints \<union> set end_hints \<union> {''realtek'', ''broadcom''} \<Longrightarrow> InferType v \<noteq> TypeUnknown"
  by (auto simp: InferType_def Let_def list_ex_iff)

lemma VendorUnset_Nil [simp]: "VendorUnset []"
  by (simp add: VendorUnset_def to_lower_def)

lemma InferVendor_range:
  "InferVendor s \<in> {'''', ''Juniper'', ''Cisco'', ''Huawei'', ''Aruba'', ''MikroTik'', ''OpenWrt''}"
proof (cases "find (\<lambda>(sub, vendor).
    contains (to_lower (Model s @ '' '' @ Version s @ '' '' @ Family s)) sub) vendor_hints")
  case None
  then show ?thesis
    by (simp add: InferVendor_def Let_def)
next
  case (Some h)
  then have "h \<in> set vendor_hints"
    by (metis find_Some_iff nth_mem)
  moreover have "InferVendor s = snd h"
    using Some by (simp add: InferVendor_def case_prod_beta)
  ultimately show ?thesis
    by (auto simp: vendor_hints_def)
qed

lemma vendor_roles:
  "InferType ''Juniper'' = TypeNetwork" "InferType ''Cisco'' = TypeNetwork"
  "InferType ''Aruba'' = TypeNetwork" "InferType ''MikroTik'' = TypeNetwork"
  "InferType ''OpenWrt'' = TypeNetwork" "InferType ''Huawei'' = TypeUnknown"
  "InferType '''' = TypeUnknown" "InferType ''Unknown'' = TypeUnknown"
  "InferType ''Randomized MAC'' = TypeEnd"
  by code_simp+

lemma vendor_unset_consts:
  "\<not> VendorUnset ''Juniper''" "\<not> VendorUnset ''Cisco''" "\<not> VendorUnset ''Huawei''"
  "\<not> VendorUnset ''Aruba''" "\<not> VendorUnset ''MikroTik''" "\<not> VendorUnset ''OpenWrt''"
  "VendorUnset ''Unknown''" "VendorUnset ''Randomized MAC''"
  by (simp_all add: VendorUnset_def go_str)

text \<open>A vendor inferred from the inventory is never one of the placeholders the merge replaces.\<close>

lemma InferVendor_set: "InferVendor s \<noteq> [] \<Longrightarrow> \<not> VendorUnset (InferVendor s)"
  using InferVendor_range[of s] vendor_unset_consts by auto

subsection \<open>Properties\<close>

text \<open>C40.  A vendor guessed from the inventory is a real one, so that the merge lets it replace a
  placeholder, and its role is \<open>Network device\<close> with one exception: \<open>Huawei\<close>, which
  \<open>InferType\<close> does not know.\<close>

theorem InferVendor_role:
  assumes "InferVendor s \<noteq> []"
  shows "\<not> VendorUnset (InferVendor s) \<and>
    InferType (InferVendor s) = (if InferVendor s = ''Huawei'' then TypeUnknown else TypeNetwork)"
  using assms InferVendor_set[OF assms] InferVendor_range[of s] vendor_roles by auto

lemma InferVendor_huawei: "InferVendor (zero_info\<lparr>Family := ''VRP (R) software''\<rparr>) = ''Huawei''"
  by code_simp

theorem InferVendor_role_witness: "InferType (InferVendor (zero_info\<lparr>Family := ''VRP (R) software''\<rparr>)) = TypeUnknown"
  using InferVendor_role[of "zero_info\<lparr>Family := ''VRP (R) software''\<rparr>"] unfolding InferVendor_huawei by simp

end
