(* ===== verification/SshText.thy ===== *)
theory SshText
  imports GoRegexp Device
begin

text \<open>
  The parts of \<open>internal/sshprobe/collect.go\<close> that read a hardware address out of a command's output,
  with \<open>net.ParseMAC\<close>, and the facts on lines and fields that the parsers of the SSH stage share.
\<close>

named_theorems ssh_rx \<open>the patterns of the SSH stage\<close>

subsection \<open>\<open>net.ParseMAC\<close>\<close>

text \<open>\<open>xtoi2\<close>: two hexadecimal digits, followed by nothing or by the separator.\<close>

definition xtoi2 :: "string \<Rightarrow> char \<Rightarrow> byte option" where
  "xtoi2 s e =
     (if length s > 2 \<and> s ! 2 \<noteq> e then None
      else case s of
        a # b # _ \<Rightarrow>
          (case (hex_val a, hex_val b) of
             (Some x, Some y) \<Rightarrow> Some (of_nat (16 * x + y))
           | _ \<Rightarrow> None)
      | _ \<Rightarrow> None)"

definition mac_size :: "nat \<Rightarrow> bool" where
  "mac_size n \<longleftrightarrow> n = 6 \<or> n = 8 \<or> n = 20"

definition parse_mac :: "string \<Rightarrow> hwaddr option" where
  "parse_mac s =
     (if length s < 14 then None
      else if s ! 2 = CHR '':'' \<or> s ! 2 = CHR ''-'' then
        if (length s + 1) mod 3 \<noteq> 0 then None
        else let n = (length s + 1) div 3 in
          if \<not> mac_size n then None
          else all_some (map (\<lambda>i. xtoi2 (drop (3 * i) s) (s ! 2)) [0..<n])
      else if s ! 4 = CHR ''.'' then
        if (length s + 1) mod 5 \<noteq> 0 then None
        else let n = 2 * (length s + 1) div 5 in
          if \<not> mac_size n then None
          else map_option concat
                 (all_some (map (\<lambda>i. case (xtoi2 (take 2 (drop (5 * i) s)) (CHR 0x00), xtoi2 (drop (5 * i + 2) s) (s ! 4)) of
                                      (Some x, Some y) \<Rightarrow> Some [x, y] | _ \<Rightarrow> None) [0..<n div 2]))
      else None)"

subsection \<open>Hardware addresses in a text\<close>

definition parseHW :: "string \<Rightarrow> hwaddr" where
  "parseHW s =
     (case parse_mac s of
        None \<Rightarrow> []
      | Some hw \<Rightarrow>
          if length hw < 6 then []
          else let z = foldl (\<lambda>z b. z OR b) 0 (take 6 hw) in
            if z = 0 then [] else take 6 hw)"

text \<open>\<open>(?:[0-9a-f]{2}[:-]){5}[0-9a-f]{2}\<close>, case folded.\<close>

definition mac_rx :: rx where
  "mac_rx = RSeq (times 5 (RSeq (times 2 (RSet hexd)) (RSet (any_of '':-'')))) (times 2 (RSet hexd))"

definition reLabeledMAC :: rx where
  "reLabeledMAC =
     rseq [ralt [cilit ''base ethernet mac address'', cilit ''public base address'', cilit ''hardware address'',
                 cilit ''mac address''], S0, ROpt (RSet (one (CHR '':''))), S0, RGroup 1 mac_rx]"

definition reAnyMAC :: rx where
  "reAnyMAC = mac_rx"

definition parseMAC :: "string \<Rightarrow> hwaddr" where
  "parseMAC s =
     (let labelled = (case find_submatch reLabeledMAC s of None \<Rightarrow> [] | Some m \<Rightarrow> parseHW (m 1)) in
      if labelled \<noteq> [] then labelled
      else case find (\<lambda>raw. parseHW raw \<noteq> []) (find_all_string reAnyMAC s) of
             Some raw \<Rightarrow> parseHW raw
           | None \<Rightarrow> [])"

subsection \<open>Facts about hardware addresses\<close>

lemma foldl_or_zero: "foldl (\<lambda>z b. z OR b) a bs = (0 :: byte) \<longleftrightarrow> a = 0 \<and> (\<forall>b \<in> set bs. b = 0)"
  by (induction bs arbitrary: a) (auto simp: or_eq_0_iff)

lemma parseHW_ok: "parseHW s = [] \<or> length (parseHW s) = 6 \<and> (\<exists>b \<in> set (parseHW s). b \<noteq> 0)"
  by (auto simp: parseHW_def Let_def foldl_or_zero split: option.splits)

lemma hex_val_digit: "n < 16 \<Longrightarrow> hex_val (hex_digit n) = Some n"
proof -
  assume n: "n < 16"
  have "\<forall>n \<in> {0..<16}. hex_val (hex_digit n) = Some n"
    by code_simp
  then show ?thesis
    using n by simp
qed

lemma xtoi2_hex_byte:
  assumes "t = [] \<or> hd t = e"
  shows "xtoi2 (hex_byte b @ t) e = Some b"
proof -
  have "unat b < 256"
    using unsigned_less[of b] by simp
  then have "hex_val (hex_digit (unat b div 16)) = Some (unat b div 16)"
    "hex_val (hex_digit (unat b mod 16)) = Some (unat b mod 16)"
    by (simp_all add: hex_val_digit)
  moreover have "of_nat (16 * (unat b div 16) + unat b mod 16) = b"
    by (subst mult_div_mod_eq) simp
  ultimately show ?thesis
    using assms by (cases t) (auto simp: xtoi2_def hex_byte_def)
qed

lemma hex_byte_length [simp]: "length (hex_byte b) = 2"
  by (simp add: hex_byte_def)

lemma mac_string_length: "m \<noteq> [] \<Longrightarrow> length (mac_string m) + 1 = 3 * length m"
  by (induction m rule: induct_list012) (auto simp: mac_string_def)

lemma drop_mac_string:
  "i < length m \<Longrightarrow> \<exists>t. drop (3 * i) (mac_string m) = hex_byte (m ! i) @ t \<and> (t = [] \<or> hd t = CHR '':'')"
proof (induction i arbitrary: m)
  case 0
  then show ?case
    by (cases m; cases "tl m") (auto simp: mac_string_def)
next
  case (Suc i)
  then obtain b c m' where m: "m = b # c # m'"
    by (cases m; cases "tl m") auto
  have eq: "3 * Suc i = 3 * i + 3" "mac_string m = (hex_byte b @ '':'') @ mac_string (c # m')"
    unfolding m by (simp_all add: mac_string_def)
  have "drop (3 * Suc i) (mac_string m) = drop (3 * i) (mac_string (c # m'))"
    unfolding eq by (simp add: drop_drop[symmetric] del: drop_drop append_assoc)
  then show ?case
    using Suc m by simp
qed

text \<open>A hardware address printed by Go is read back.\<close>

lemma parse_mac_string:
  assumes "mac_size (length m)"
  shows "parse_mac (mac_string m) = Some m"
proof -
  let ?s = "mac_string m"
  have ne: "m \<noteq> []" and n6: "6 \<le> length m"
    using assms by (auto simp: mac_size_def)
  then have len: "length ?s + 1 = 3 * length m"
    using mac_string_length by blast
  obtain b c m' where m: "m = b # c # m'"
    using n6 by (cases m; cases "tl m") auto
  then have sep: "?s ! 2 = CHR '':''"
    by (simp add: mac_string_def hex_byte_def)
  have "map (\<lambda>i. xtoi2 (drop (3 * i) ?s) (CHR '':'')) [0..<length m] = map (\<lambda>i. Some (m ! i)) [0..<length m]"
    using drop_mac_string xtoi2_hex_byte by (intro map_cong) (auto, metis)
  moreover have "all_some (map (\<lambda>i. Some (m ! i)) [0..<length m]) = Some m"
    using all_some_map_Some[of "[0..<length m]" "\<lambda>i. Some (m ! i)" "(!) m"] by (simp add: map_nth)
  ultimately have "all_some (map (\<lambda>i. xtoi2 (drop (3 * i) ?s) (CHR '':'')) [0..<length m]) = Some m"
    by (rule ssubst)
  then show ?thesis
    using len n6 assms unfolding parse_mac_def Let_def sep by simp
qed

subsection \<open>The session\<close>

text \<open>
  The interface \<open>runner\<close> of \<open>sshprobe.go\<close>: a command run on its own, with the time it may take, a
  dialogue with a shell, and the end of the session.  Both answer with the output and an error, if any.
\<close>

record 'w runner =
  rn_exec :: "int \<Rightarrow> string \<Rightarrow> 'w \<Rightarrow> (string \<times> string option) \<times> 'w"
  rn_shell :: "int \<Rightarrow> string list \<Rightarrow> 'w \<Rightarrow> (string \<times> string option) \<times> 'w"
  rn_close :: "'w \<Rightarrow> 'w"

definition cmdTimeout :: int where
  "cmdTimeout = 5 * 1000000000"

text \<open>
  The loop that \<open>gatherLLDP\<close> and \<open>gatherIfaces\<close> have in common: the commands one by one until the
  output of one is good.  Looking at an output may panic, which is \<open>None\<close> of \<open>good\<close>.  The loop returns
  at once, ends with whether any command worked, or panics.
\<close>

datatype gathered = Returned string | Ended bool | Panicked

fun gather_loop ::
  "('w \<Rightarrow> bool) \<Rightarrow> 'w runner \<Rightarrow> (string \<Rightarrow> bool option) \<Rightarrow> string list \<Rightarrow> bool \<Rightarrow> 'w \<Rightarrow> gathered \<times> 'w" where
  "gather_loop ctx_err r good [] worked w = (Ended worked, w)"
| "gather_loop ctx_err r good (cmd # cmds) worked w =
     (if ctx_err w then (Returned '''', w)
      else let ((out, err), w1) = rn_exec r cmdTimeout cmd w;
               out = trim_space out;
               worked = (if err = None \<or> out \<noteq> [] then True else worked)
           in case good out of
                None \<Rightarrow> (Panicked, w1)
              | Some True \<Rightarrow> (Returned out, w1)
              | Some False \<Rightarrow> gather_loop ctx_err r good cmds worked w1)"

definition gather_first ::
  "('w \<Rightarrow> bool) \<Rightarrow> 'w runner \<Rightarrow> (string \<Rightarrow> bool option) \<Rightarrow> string list \<Rightarrow> 'w \<Rightarrow> string option \<times> 'w" where
  "gather_first ctx_err r good cmds w =
     (case gather_loop ctx_err r good cmds False w of
        (Returned out, w1) \<Rightarrow> (Some out, w1)
      | (Panicked, w1) \<Rightarrow> (None, w1)
      | (Ended worked, w1) \<Rightarrow>
          if worked then (Some '''', w1)
          else let ((out, err), w2) = rn_shell r cmdTimeout (''terminal length 0'' # take 2 cmds) w1
               in (Some (trim_space out), w2))"

lemma gather_loop_total: "\<forall>s. good s \<noteq> None \<Longrightarrow> fst (gather_loop ctx_err r good cmds worked w) \<noteq> Panicked"
proof (induction cmds arbitrary: worked w)
  case (Cons cmd cmds)
  obtain out err w1 where run: "rn_exec r cmdTimeout cmd w = ((out, err), w1)"
    by (metis surj_pair)
  obtain b where b: "good (trim_space out) = Some b"
    using Cons.prems by blast
  show ?case
    using Cons run b by (cases b) (simp_all add: Let_def)
qed simp

lemma gather_first_total: "\<forall>s. good s \<noteq> None \<Longrightarrow> fst (gather_first ctx_err r good cmds w) \<noteq> None"
  using gather_loop_total[of good ctx_err r cmds False w]
  by (auto simp: gather_first_def split: prod.splits gathered.splits)

subsection \<open>Lines and fields\<close>

definition lines :: "string \<Rightarrow> string list" where
  "lines s = split_on (CHR 0x0A) s"

text \<open>The position of the first element with a property.\<close>

fun first_index :: "('a \<Rightarrow> bool) \<Rightarrow> 'a list \<Rightarrow> nat option" where
  "first_index P [] = None"
| "first_index P (x # xs) = (if P x then Some 0 else map_option Suc (first_index P xs))"

lemma first_index_Some: "first_index P xs = Some i \<Longrightarrow> i < length xs \<and> P (xs ! i) \<and> (\<forall>j < i. \<not> P (xs ! j))"
proof (induction xs arbitrary: i)
  case (Cons x xs)
  then show ?case
    by (cases i) (auto simp: less_Suc_eq_0_disj split: if_splits)
qed simp

lemma first_index_append: "\<forall>x \<in> set us. \<not> P x \<Longrightarrow> P x \<Longrightarrow> first_index P (us @ x # vs) = Some (length us)"
  by (induction us) auto

text \<open>A word: no space rune starts anywhere in it.\<close>

definition is_word :: "string \<Rightarrow> bool" where
  "is_word w \<longleftrightarrow> w \<noteq> [] \<and> (\<forall>i < length w. space_at (drop i w) = 0)"

lemma is_word_tl: "is_word (c # d # w) \<Longrightarrow> is_word (d # w)"
  unfolding is_word_def by (metis Suc_less_eq drop_Suc_Cons length_Cons list.distinct(1))

lemma is_word_front: "is_word w \<Longrightarrow> space_at w = 0"
  unfolding is_word_def by (metis drop0 length_greater_0_conv)

lemma take_field_word:
  "is_word w \<Longrightarrow> u = [] \<or> space_at u \<noteq> 0 \<and> is_ascii (hd u) \<Longrightarrow> take_field (w @ u) = w"
proof (induction w)
  case (Cons c w)
  have c: "space_at ((c # w) @ u) = 0"
  proof (cases u)
    case Nil
    then show ?thesis
      using is_word_front[OF Cons.prems(1)] by simp
  next
    case (Cons d v)
    then show ?thesis
      using is_word_front \<open>is_word (c # w)\<close> \<open>u = [] \<or> _\<close> space_at_append_ascii[of "c # w" d v] by auto
  qed
  have "take_field (w @ u) = w"
  proof (cases w)
    case Nil
    then show ?thesis
      using Cons.prems(2) by (auto simp: take_field.simps[of u])
  next
    case (Cons d v)
    then show ?thesis
      using Cons.IH is_word_tl \<open>is_word (c # w)\<close> Cons.prems(2) by blast
  qed
  then show ?case
    using c by (subst take_field.simps) simp
qed (simp add: is_word_def)

lemma fields_Nil [simp]: "str_fields [] = []"
  by (simp add: str_fields.simps trim_left.simps)

lemma space_ascii [simp]: "space_at (CHR '' '' # u) = 1" "is_ascii (CHR '' '')"
  by (simp_all add: space_at_def is_ascii_def ascii_space_def byte_val_def)

lemma fields_space: "str_fields (CHR '' '' # u) = str_fields u"
  by (subst (1 2) str_fields.simps) (simp add: trim_left.simps[of "CHR '' '' # u"])

lemma fields_word: "is_word w \<Longrightarrow> str_fields w = [w]"
  using take_field_word[of w "[]"] is_word_front[of w] by (subst str_fields.simps) (auto simp: trim_left_id is_word_def)

lemma fields_word_space: "is_word w \<Longrightarrow> str_fields (w @ CHR '' '' # u) = w # str_fields u"
  using take_field_word[of w "CHR '' '' # u"] is_word_front[of w] space_at_append_ascii[of w "CHR '' ''" u]
  by (subst str_fields.simps) (auto simp: trim_left_id is_word_def fields_space)

text \<open>Words joined by single blanks are the fields of the line, and the line is tidy.\<close>

lemma fields_join: "list_all is_word ws \<Longrightarrow> str_fields (join '' '' ws) = ws"
  by (induction ws rule: induct_list012) (auto simp: fields_word fields_word_space)

lemma join_space_at: "list_all is_word ws \<Longrightarrow> space_at (join '' '' ws) = 0"
proof (induction ws rule: induct_list012)
  case (3 w x ws)
  then show ?case
    using is_word_front[of w] space_at_append_ascii[of w "CHR '' ''"] by (simp add: is_word_def)
qed (auto simp: is_word_front)

text \<open>Bytes that are neither spaces nor the bytes of longer runes.\<close>

definition plain :: "char \<Rightarrow> bool" where
  "plain c \<longleftrightarrow> is_ascii c \<and> \<not> ascii_space c"

lemma plain_word: "w \<noteq> [] \<Longrightarrow> list_all plain w \<Longrightarrow> is_word w"
proof -
  assume w: "w \<noteq> []" "list_all plain w"
  have "space_at (drop i w) = 0" if "i < length w" for i
  proof -
    have "drop i w = w ! i # drop (Suc i) w" "plain (w ! i)"
      using that w(2) by (simp_all add: Cons_nth_drop_Suc list_all_length)
    then show ?thesis
      using space_ends_ascii[of "w ! i"] by (simp add: plain_def)
  qed
  then show "is_word w"
    using w by (simp add: is_word_def)
qed

lemma plain_tidy_join:
  assumes "ws \<noteq> []" "list_all (\<lambda>w. w \<noteq> [] \<and> list_all plain w) ws"
  shows "tidy (join '' '' ws)"
proof -
  have "list_all is_word ws"
    using assms(2) plain_word by (auto simp: list_all_iff)
  then have "space_at (join '' '' ws) = 0"
    by (rule join_space_at)
  moreover have "\<exists>c u. rev (join '' '' ws) = c # u \<and> plain c"
    using assms
  proof (induction ws rule: induct_list012)
    case (2 w)
    then show ?case
      by (cases w rule: rev_cases) auto
  next
    case (3 w x ws)
    then show ?case
      by force
  qed simp
  then have "space_end (rev (join '' '' ws)) = 0"
    using space_ends_ascii by (auto simp: plain_def)
  ultimately show ?thesis
    by (simp add: tidy_def)
qed

end
