(* ===== verification/SshHealth.thy ===== *)
theory SshHealth
  imports SshText
begin

text \<open>
  \<open>internal/sshprobe/health.go\<close>: the commands that show the load of a device, and the patterns that
  read processor, memory and temperature out of their output.  \<open>pctOf\<close> computes in \<open>float64\<close>: a
  non-negative double is a mantissa and a power of two, rounded to 53 bits, ties to even.
\<close>

subsection \<open>Non-negative doubles\<close>

datatype f64 = Fin nat int | PosInf

definition round_even :: "nat \<Rightarrow> nat \<Rightarrow> nat" where
  "round_even n d =
     (let q = n div d; r = n mod d in
      if 2 * r < d then q else if 2 * r > d then q + 1 else if even q then q else q + 1)"

fun bit_len :: "nat \<Rightarrow> nat" where
  "bit_len n = (if n = 0 then 0 else Suc (bit_len (n div 2)))"

declare bit_len.simps [simp del]

text \<open>The mantissa of \<open>n / d\<close> at the exponent \<open>e\<close>.\<close>

definition mantissa :: "nat \<Rightarrow> nat \<Rightarrow> int \<Rightarrow> nat" where
  "mantissa n d e = (if e \<ge> 0 then round_even n (d * 2 ^ nat e) else round_even (n * 2 ^ nat (- e)) d)"

text \<open>The double nearest to \<open>n / d\<close>; the quotients of the program are never so small as to be subnormal.\<close>

definition f64_ratio :: "nat \<Rightarrow> nat \<Rightarrow> f64" where
  "f64_ratio n d =
     (if n = 0 then Fin 0 0
      else
        let e = int (bit_len n) - int (bit_len d) - 52;
            low = (if e \<ge> 0 then n < d * 2 ^ nat e * 2 ^ 52 else n * 2 ^ nat (- e) < d * 2 ^ 52);
            e = (if low then e - 1 else e);
            m = mantissa n d e;
            (m, e) = (if m = 2 ^ 53 then (2 ^ 52, e + 1) else (m, e))
        in if e > 971 then PosInf else Fin m e)"

text \<open>\<open>strconv.ParseFloat\<close> of a string of digits; \<open>None\<close> is an error, a number out of range among them.\<close>

definition parse_float :: "string \<Rightarrow> f64 option" where
  "parse_float s =
     (if s = [] then None
      else case digits_val 0 s of
        None \<Rightarrow> None
      | Some n \<Rightarrow> (case f64_ratio n 1 of PosInf \<Rightarrow> None | x \<Rightarrow> Some x))"

definition f64_is_zero :: "f64 \<Rightarrow> bool" where
  "f64_is_zero x \<longleftrightarrow> (case x of Fin m e \<Rightarrow> m = 0 | PosInf \<Rightarrow> False)"

definition f64_mult_nat :: "f64 \<Rightarrow> nat \<Rightarrow> f64" where
  "f64_mult_nat x k =
     (case x of
        PosInf \<Rightarrow> PosInf
      | Fin m e \<Rightarrow> if e \<ge> 0 then f64_ratio (m * k * 2 ^ nat e) 1 else f64_ratio (m * k) (2 ^ nat (- e)))"

text \<open>Division of a double by a positive finite one.\<close>

definition f64_div :: "f64 \<Rightarrow> f64 \<Rightarrow> f64" where
  "f64_div x y =
     (case (x, y) of
        (Fin m e, Fin n f) \<Rightarrow>
          if e \<ge> f then f64_ratio (m * 2 ^ nat (e - f)) n else f64_ratio m (n * 2 ^ nat (f - e))
      | (PosInf, _) \<Rightarrow> PosInf
      | (_, PosInf) \<Rightarrow> Fin 0 0)"

text \<open>\<open>%.0f\<close>\<close>

definition format_f0 :: "f64 \<Rightarrow> string" where
  "format_f0 x =
     (case x of
        PosInf \<Rightarrow> ''+Inf''
      | Fin m e \<Rightarrow> dec (if e \<ge> 0 then m * 2 ^ nat e else round_even m (2 ^ nat (- e))))"

definition pctOf :: "string \<Rightarrow> string \<Rightarrow> string" where
  "pctOf totalS usedS =
     (case (parse_float totalS, parse_float usedS) of
        (Some t, Some u) \<Rightarrow>
          if f64_is_zero t then ''''
          else format_f0 (f64_div (f64_mult_nat u 100) t) @ ''%''
      | _ \<Rightarrow> '''')"

subsection \<open>Patterns\<close>

definition num_dot :: "nat \<Rightarrow> bool" where
  "num_dot r \<longleftrightarrow> dg r \<or> r = 46"

abbreviation ND :: rx where "ND \<equiv> plus_of num_dot"

definition reCiscoCPU :: rx where
  "reCiscoCPU =
     rseq [cilit ''CPU utilization for five seconds:'', S0, RGroup 1 ND, S0, lit ''%'',
           ROpt (rseq [S0, lit ''/'', S0, RGroup 2 ND, lit ''%'']), lit '';'',
           S0, cilit ''one minute:'', S0, RGroup 3 ND, S0, lit ''%;'',
           S0, cilit ''five minutes:'', S0, RGroup 4 ND, S0, lit ''%'']"

definition reHuaweiCPU :: rx where
  "reHuaweiCPU =
     rseq [cilit ''CPU utilization'', ROpt (cilit '' for five seconds''), lit '':'', S0, RGroup 1 ND, S0, lit ''%'',
           ROpt (rseq [lit '';'', S0, cilit ''one minute:'', S0, RGroup 2 ND, S0, lit ''%'']),
           ROpt (rseq [lit '';'', S0, cilit ''five minutes:'', S0, RGroup 3 ND, S0, lit ''%''])]"

definition labelled_percent :: "string \<Rightarrow> rx" where
  "labelled_percent a = rseq [RBol, S0, cilit a, S1, RGroup 1 D1, S1, cilit ''percent'']"

definition reJunosIdle :: rx where "reJunosIdle = labelled_percent ''Idle''"
definition reJunosUser :: rx where "reJunosUser = labelled_percent ''User''"
definition reJunosKern :: rx where "reJunosKern = labelled_percent ''Kernel''"

definition reJunosMem :: rx where
  "reJunosMem = rseq [cilit ''Memory utilization'', S1, RGroup 1 D1, S1, cilit ''percent'']"
definition reJunosTemp :: rx where
  "reJunosTemp = rseq [RBol, S0, cilit ''Temperature'', S1, RGroup 1 D1, S1, cilit ''degrees C'']"
definition reNXOSCPU :: rx where
  "reNXOSCPU =
     rseq [cilit ''CPU states'', S0, lit '':'', S0, RGroup 1 ND, lit ''%'', S0, cilit ''user,'',
           S0, RGroup 2 ND, lit ''%'', S0, cilit ''kernel,'', S0, RGroup 3 ND, lit ''%'', S0, cilit ''idle'']"
definition reNXOSMem :: rx where
  "reNXOSMem = rseq [cilit ''Memory usage:'', S0, RGroup 1 D1, cilit ''K total,'', S0, RGroup 2 D1, cilit ''K used'']"
definition reHuaweiMem :: rx where
  "reHuaweiMem = rseq [cilit ''Memory utilization:'', S0, RGroup 1 ND, S0, lit ''%'']"
definition reCiscoMem :: rx where
  "reCiscoMem = rseq [cilit ''Processor'', ROpt (RSeq S1 (cilit ''Pool'')), S1, cilit ''Total:'', S0, RGroup 1 D1, S1,
                      cilit ''Used:'', S0, RGroup 2 D1]"
definition reCiscoMemRow :: rx where
  "reCiscoMemRow = rseq [RBol, cilit ''Processor'', S1, N1, S1, RGroup 1 D1, S1, RGroup 2 D1]"

subsection \<open>Readings\<close>

definition trimPct :: "string \<Rightarrow> string" where
  "trimPct s = trim_space s"

definition labeledPct :: "rx \<Rightarrow> string \<Rightarrow> string" where
  "labeledPct re s = (case find_submatch re s of None \<Rightarrow> '''' | Some m \<Rightarrow> m 1)"

text \<open>\<open>strconv.Atoi\<close> of a string of digits without its error: out of range it is the largest \<open>int\<close>.\<close>

definition atoi_value :: "string \<Rightarrow> int" where
  "atoi_value s =
     (case digits_val 0 s of None \<Rightarrow> 0 | Some n \<Rightarrow> if n < 2 ^ 63 then int n else 2 ^ 63 - 1)"

definition fmt_int :: "int \<Rightarrow> string" where
  "fmt_int i = (if i < 0 then CHR ''-'' # dec (nat (- i)) else dec (nat i))"

definition busy_of :: "int \<Rightarrow> int" where
  "busy_of idle = (let busy = 100 - idle in if busy < 0 then 0 else busy)"

definition junos_cpu :: "int \<Rightarrow> string \<Rightarrow> string \<Rightarrow> string" where
  "junos_cpu idle user kern =
     (if user \<noteq> '''' \<and> kern \<noteq> '''' then ''user '' @ user @ ''% kernel '' @ kern @ ''% idle '' @ fmt_int idle @ ''%''
      else if user \<noteq> '''' then ''user '' @ user @ ''% idle '' @ fmt_int idle @ ''%''
      else fmt_int (busy_of idle) @ ''% busy (idle '' @ fmt_int idle @ ''%)'')"

definition load_text :: "string \<Rightarrow> string \<Rightarrow> string \<Rightarrow> string" where
  "load_text a b c = ''5s '' @ a @ ''% / 1m '' @ b @ ''% / 5m '' @ c @ ''%''"

definition parseCPU :: "string \<Rightarrow> string" where
  "parseCPU s =
     (case find_submatch reCiscoCPU s of
        Some m \<Rightarrow> load_text (trimPct (m 1)) (trimPct (m 3)) (trimPct (m 4))
      | None \<Rightarrow>
     (case find_submatch reNXOSCPU s of
        Some m \<Rightarrow> ''user '' @ trimPct (m 1) @ ''% idle '' @ trimPct (m 3) @ ''%''
      | None \<Rightarrow>
     (case find_submatch reJunosIdle s of
        Some m \<Rightarrow> junos_cpu (atoi_value (m 1)) (labeledPct reJunosUser s) (labeledPct reJunosKern s)
      | None \<Rightarrow>
     (case find_submatch reHuaweiCPU s of
        None \<Rightarrow> ''''
      | Some m \<Rightarrow>
          if m 1 = '''' then ''''
          else if m 2 \<noteq> '''' \<and> m 3 \<noteq> '''' then load_text (trimPct (m 1)) (trimPct (m 2)) (trimPct (m 3))
          else trimPct (m 1) @ ''%''))))"

text \<open>A pair of sizes: the percentage, unless it is blank.\<close>

definition mem_pair :: "rx \<Rightarrow> string \<Rightarrow> string" where
  "mem_pair re s = (case find_submatch re s of None \<Rightarrow> '''' | Some m \<Rightarrow> pctOf (m 1) (m 2))"

definition parseMemory :: "string \<Rightarrow> string" where
  "parseMemory s =
     (case find_submatch reJunosMem s of
        Some m \<Rightarrow> m 1 @ ''%''
      | None \<Rightarrow>
     (case find_submatch reHuaweiMem s of
        Some m \<Rightarrow> trimPct (m 1) @ ''%''
      | None \<Rightarrow>
          let p = mem_pair reNXOSMem s in if p \<noteq> '''' then p
          else let p = mem_pair reCiscoMem s in if p \<noteq> '''' then p
          else mem_pair reCiscoMemRow s))"

definition parseTemp :: "string \<Rightarrow> string" where
  "parseTemp s = (case find_submatch reJunosTemp s of Some m \<Rightarrow> m 1 @ ''C'' | None \<Rightarrow> '''')"

definition applyHealth :: "sys_info \<Rightarrow> string \<Rightarrow> sys_info" where
  "applyHealth info s =
     (let info = (if CPU info = '''' then info\<lparr>CPU := parseCPU s\<rparr> else info);
          info = (if Memory info = '''' then info\<lparr>Memory := parseMemory s\<rparr> else info)
      in if Temp info = '''' then info\<lparr>Temp := parseTemp s\<rparr> else info)"

subsection \<open>The commands\<close>

definition healthCommands :: "string list" where
  "healthCommands =
    [''show chassis routing-engine'', ''cli show chassis routing-engine'', ''show processes cpu'',
     ''show memory statistics'', ''show system resources'', ''display cpu-usage'', ''display memory-usage'']"

text \<open>The loop: what it returns at once, or the text so far and whether any command worked.\<close>

fun health_loop ::
  "('w \<Rightarrow> bool) \<Rightarrow> 'w runner \<Rightarrow> string list \<Rightarrow> string \<Rightarrow> bool \<Rightarrow> 'w \<Rightarrow> (string + string \<times> bool) \<times> 'w" where
  "health_loop ctx_err r [] b worked w = (Inr (b, worked), w)"
| "health_loop ctx_err r (cmd # cmds) b worked w =
     (if ctx_err w then (Inr (b, worked), w)
      else let ((out, err), w1) = rn_exec r cmdTimeout cmd w;
               out = trim_space out;
               worked = (if err = None \<or> out \<noteq> '''' then True else worked)
           in if out = '''' then health_loop ctx_err r cmds b worked w1
              else let b = (if length b > 0 then b @ [CHR 0x0A] else b) @ out;
                       tmp = applyHealth zero_info b
                in if CPU tmp \<noteq> '''' \<and> Memory tmp \<noteq> '''' then (Inl b, w1)
                   else health_loop ctx_err r cmds b worked w1)"

definition gatherHealth :: "('w \<Rightarrow> bool) \<Rightarrow> 'w runner \<Rightarrow> 'w \<Rightarrow> string \<times> 'w" where
  "gatherHealth ctx_err r w =
     (case health_loop ctx_err r healthCommands '''' False w of
        (Inl b, w1) \<Rightarrow> (b, w1)
      | (Inr (b, worked), w1) \<Rightarrow>
          if \<not> worked then
            let ((out, err), w2) = rn_shell r cmdTimeout
                  [''terminal length 0'', ''show chassis routing-engine'', ''show processes cpu''] w1
            in (trim_space out, w2)
          else (b, w1))"

subsection \<open>Properties\<close>

text \<open>A reading of the health of a device only fills blanks: no other field of the inventory changes, a
  field that is set stays, and to read the same text again changes nothing.\<close>

lemma applyHealth_fills:
  "applyHealth info s =
     info\<lparr>CPU := (if CPU info = [] then parseCPU s else CPU info),
          Memory := (if Memory info = [] then parseMemory s else Memory info),
          Temp := (if Temp info = [] then parseTemp s else Temp info)\<rparr> \<and>
   applyHealth (applyHealth info s) s = applyHealth info s"
  by (simp add: applyHealth_def Let_def)

text \<open>The busy share printed for a Junos device lies between 0 and 100, whatever number of digits the
  device sends, and makes up 100 with an idle share in that range.\<close>

lemma atoi_value_range: "0 \<le> atoi_value s \<and> atoi_value s < 2 ^ 63"
  by (auto simp: atoi_value_def split: option.splits)

lemma junos_busy_range:
  "0 \<le> busy_of (atoi_value s) \<and> busy_of (atoi_value s) \<le> 100 \<and>
   (atoi_value s \<le> 100 \<longrightarrow> busy_of (atoi_value s) + atoi_value s = 100)"
  using atoi_value_range[of s] by (simp add: busy_of_def Let_def)

lemma junos_demo: "atoi_value ''97'' = 97"
  by code_simp

lemma junos_busy_demo: "busy_of (atoi_value ''97'') = 3"
  using junos_busy_range[of "''97''"] unfolding junos_demo by simp

text \<open>The percentage of two sizes, in doubles.\<close>

lemma pct_demo: "pctOf ''3'' ''2'' = ''67%''" "pctOf ''200'' ''1'' = ''0%''" "pctOf ''0'' ''5'' = ''''"
  by (simp_all add: pctOf_def parse_float_def f64_ratio_def mantissa_def round_even_def f64_mult_nat_def f64_div_def
      f64_is_zero_def format_f0_def bit_len.simps dec.simps digit_def byte_val_def digit_char_def char_of_def)

text \<open>A later command does not only fill blanks: the texts are joined and read anew, and the pattern tried
  first wins wherever it matches.\<close>

definition health_early :: string where
  "health_early = ''CPU utilization: 7%''"

definition health_late :: string where
  "health_late = ''CPU states : 1% user, 2% kernel, 97% idle''"

lemma health_rereads:
  "parseCPU health_early = ''7%''" "parseCPU (health_early @ [CHR 0x0A] @ health_late) = ''user 1% idle 97%''"
  by code_simp+

end
