(* ===== verification/Iface.thy ===== *)
theory Iface
  imports GoNet
begin

text \<open>
  \<open>internal/iface/iface.go\<close>: choosing the interface and the subnet to scan, and enumerating the
  hosts of that subnet.  What the operating system answers (the interfaces and their addresses) is
  the record \<open>os_net\<close>; an error it returns is kept as its text.
\<close>

subsection \<open>State and operations\<close>

record interface =
  if_name :: string
  if_flags :: "64 word"
  if_hwaddr :: hwaddr

datatype if_addr = IPNetAddr ipnet | OtherAddr

record os_net =
  os_interface_by_name :: "string \<Rightarrow> string + interface"
  os_interfaces :: "string + interface list"
  os_addrs :: "interface \<Rightarrow> if_addr list option"

record local_net =
  ln_interface :: interface
  ln_ip :: ip
  ln_network :: ipnet

datatype detect_error =
    ByName string string
  | ListInterfaces string
  | NoUsableAddress string
  | NoSuitableInterface

definition FlagUp :: "64 word" where "FlagUp = 1"
definition FlagLoopback :: "64 word" where "FlagLoopback = 4"

definition private_nets :: "ipnet list" where
  "private_nets =
    [\<lparr>net_ip = ipv4 10 0 0 0, net_mask = cidr_mask4 8\<rparr>,
     \<lparr>net_ip = ipv4 172 16 0 0, net_mask = cidr_mask4 12\<rparr>,
     \<lparr>net_ip = ipv4 192 168 0 0, net_mask = cidr_mask4 16\<rparr>]"

definition isPrivate :: "ip \<Rightarrow> bool" where
  "isPrivate p = list_ex (\<lambda>n. net_contains n p) private_nets"

text \<open>The body of the inner loop up to the privacy test: the candidate an address gives, if any.\<close>

definition addr_candidate :: "interface \<Rightarrow> if_addr \<Rightarrow> local_net option" where
  "addr_candidate ifi a =
     (case a of
        OtherAddr \<Rightarrow> None
      | IPNetAddr n \<Rightarrow>
          (let ip4 = to4 (net_ip n) in
           if ip4 = [] then None
           else if ip4 ! 0 = 169 \<and> ip4 ! 1 = 254 then None
           else Some \<lparr>ln_interface = ifi, ln_ip = ip4,
                      ln_network = \<lparr>net_ip = ip_mask ip4 (net_mask n), net_mask = net_mask n\<rparr>\<rparr>))"

text \<open>The inner loop: \<open>Inl\<close> is its early return, \<open>Inr\<close> the fallback after the loop.\<close>

fun detect_addrs :: "interface \<Rightarrow> if_addr list \<Rightarrow> local_net option \<Rightarrow> local_net + local_net option" where
  "detect_addrs ifi [] fallback = Inr fallback"
| "detect_addrs ifi (a # as) fallback =
     (case addr_candidate ifi a of
        None \<Rightarrow> detect_addrs ifi as fallback
      | Some ln \<Rightarrow>
          if isPrivate (ln_ip ln) then Inl ln
          else detect_addrs ifi as (if fallback = None then Some ln else fallback))"

definition skip_iface :: "interface \<Rightarrow> bool" where
  "skip_iface ifi \<longleftrightarrow>
     if_flags ifi AND FlagUp = 0 \<or> if_flags ifi AND FlagLoopback \<noteq> 0 \<or> length (if_hwaddr ifi) = 0"

fun detect_ifaces :: "(interface \<Rightarrow> if_addr list option) \<Rightarrow> interface list \<Rightarrow> local_net option \<Rightarrow>
    local_net + local_net option" where
  "detect_ifaces addrs [] fallback = Inr fallback"
| "detect_ifaces addrs (ifi # ifs) fallback =
     (if skip_iface ifi then detect_ifaces addrs ifs fallback
      else case addrs ifi of
             None \<Rightarrow> detect_ifaces addrs ifs fallback
           | Some as \<Rightarrow>
               (case detect_addrs ifi as fallback of
                  Inl ln \<Rightarrow> Inl ln
                | Inr fb \<Rightarrow> detect_ifaces addrs ifs fb))"

definition list_ifaces :: "os_net \<Rightarrow> string \<Rightarrow> detect_error + interface list" where
  "list_ifaces os ifaceName =
     (if ifaceName \<noteq> [] then
        (case os_interface_by_name os ifaceName of
           Inl e \<Rightarrow> Inl (ByName ifaceName e) | Inr ifi \<Rightarrow> Inr [ifi])
      else
        (case os_interfaces os of
           Inl e \<Rightarrow> Inl (ListInterfaces e) | Inr ifs \<Rightarrow> Inr ifs))"

definition Detect :: "os_net \<Rightarrow> string \<Rightarrow> detect_error + local_net" where
  "Detect os ifaceName =
     (case list_ifaces os ifaceName of
        Inl e \<Rightarrow> Inl e
      | Inr ifs \<Rightarrow>
          (case detect_ifaces (os_addrs os) ifs None of
             Inl ln \<Rightarrow> Inr ln
           | Inr (Some fb) \<Rightarrow> Inr fb
           | Inr None \<Rightarrow>
               if ifaceName \<noteq> [] then Inl (NoUsableAddress ifaceName) else Inl NoSuitableInterface))"

subsection \<open>Addresses as numbers\<close>

text \<open>\<open>binaryIP\<close> indexes the four-byte form: \<open>None\<close> is the panic on a nil slice.\<close>

definition binary4 :: "ip \<Rightarrow> 32 word" where
  "binary4 p = push_bit 24 (ucast (p ! 0)) OR push_bit 16 (ucast (p ! 1)) OR
               push_bit 8 (ucast (p ! 2)) OR ucast (p ! 3)"

definition binaryIP :: "ip \<Rightarrow> 32 word option" where
  "binaryIP p = (let q = to4 p in if q = [] then None else Some (binary4 q))"

definition intToIP :: "32 word \<Rightarrow> ip" where
  "intToIP n = to4 (ipv4 (ucast (drop_bit 24 n)) (ucast (drop_bit 16 n)) (ucast (drop_bit 8 n)) (ucast n))"

subsection \<open>Host enumeration\<close>

datatype hosts_error = OnlyIPv4 | NoHosts ipnet | TooManyHosts string nat int

definition CIDR :: "local_net \<Rightarrow> string" where
  "CIDR ln = ip_string (net_ip (ln_network ln)) @ ''/'' @ dec (fst (mask_size (net_mask (ln_network ln))))"

definition LocalNet_String :: "local_net \<Rightarrow> string" where
  "LocalNet_String ln =
     ip_string (ln_ip ln) @ '' on '' @ if_name (ln_interface ln) @ '' ('' @ CIDR ln @ '')''"

text \<open>The outer option is \<open>None\<close> for a panic.\<close>

definition Hosts :: "local_net \<Rightarrow> int \<Rightarrow> (hosts_error + ip list) option" where
  "Hosts ln maxHosts =
     (let (ones, bits) = mask_size (net_mask (ln_network ln)) in
      if bits \<noteq> 32 then Some (Inl OnlyIPv4)
      else
        let hostBits = bits - ones;
            total = (2 :: int) ^ hostBits;
            (start, stop) = (if ones \<ge> 31 then (0, total) else (1, total - 1));
            cnt = stop - start
        in
        if cnt \<le> 0 then Some (Inl (NoHosts (ln_network ln)))
        else if maxHosts > 0 \<and> cnt > maxHosts
          then Some (Inl (TooManyHosts (CIDR ln) (nat cnt) maxHosts))
        else case binaryIP (to4 (net_ip (ln_network ln))) of
               None \<Rightarrow> None
             | Some base \<Rightarrow>
                 Some (Inr (map (\<lambda>i. intToIP (base + of_int i)) [start..stop - 1])))"

definition hosts_error_text :: "hosts_error \<Rightarrow> string" where
  "hosts_error_text e =
     (case e of
        OnlyIPv4 \<Rightarrow> ''only IPv4 is supported''
      | NoHosts n \<Rightarrow> ''subnet '' @ ipnet_string n @ '' has no host addresses''
      | TooManyHosts cidr cnt mx \<Rightarrow>
          ''subnet '' @ cidr @ '' has '' @ dec cnt @ '' hosts (max '' @ dec (nat mx) @
          ''); use a narrower interface/subnet or raise the host limit'')"

text \<open>\<open>IsPermissionError\<close> on the text of an error, \<open>None\<close> for a nil error.\<close>

definition IsPermissionError :: "string option \<Rightarrow> bool" where
  "IsPermissionError err =
     (case err of
        None \<Rightarrow> False
      | Some e \<Rightarrow>
          (let msg = to_lower e in
           contains msg ''permission denied'' \<or> contains msg ''operation not permitted'' \<or>
           contains msg ''are you root''))"

subsection \<open>Addresses as numbers: facts\<close>

lemma list4E: "length p = 4 \<Longrightarrow> (\<And>a b c d. p = [a, b, c, d] \<Longrightarrow> P) \<Longrightarrow> P"
  by (auto simp: numeral_eq_Suc length_Suc_conv)

lemma intToIP_eq:
  "intToIP n = [ucast (drop_bit 24 n), ucast (drop_bit 16 n), ucast (drop_bit 8 n), ucast n]"
  by (simp add: intToIP_def ipv4_def)

lemma intToIP_length [simp]: "length (intToIP n) = 4"
  by (simp add: intToIP_eq)

lemma bit_binary4:
  assumes "i < 32"
  shows "bit (binary4 p) i = bit (p ! (3 - i div 8)) (i mod 8)"
proof -
  have high: "\<not> bit b k" if "8 \<le> k" for b :: byte and k
    using that bit_imp_le_length[of b k] by auto
  consider "i < 8" | "8 \<le> i" "i < 16" | "16 \<le> i" "i < 24" | "24 \<le> i"
    by linarith
  then show ?thesis
  proof cases
    case 1
    then show ?thesis
      by (simp add: binary4_def bit_or_iff bit_push_bit_iff bit_ucast_iff high) 
  next
    case 2
    have "i div 8 = 1" "i mod 8 = i - 8"
      using assms 2 by presburger+
    moreover have "i - 8 < 32"
      using 2 by simp
    ultimately show ?thesis
      using assms 2 by (simp add: binary4_def bit_or_iff bit_push_bit_iff bit_ucast_iff high) 
  next
    case 3
    have "i div 8 = 2" "i mod 8 = i - 16"
      using assms 3 by presburger+
    moreover have "i - 16 < 32" "i - 8 < 32"
      using 3 by simp_all
    ultimately show ?thesis
      using assms 3 by (simp add: binary4_def bit_or_iff bit_push_bit_iff bit_ucast_iff high) 
  next
    case 4
    have "i div 8 = 3" "i mod 8 = i - 24"
      using assms 4 by presburger+
    moreover have "i - 24 < 32" "i - 16 < 32" "i - 8 < 32"
      using 4 assms by simp_all
    ultimately show ?thesis
      using assms 4 by (simp add: binary4_def bit_or_iff bit_push_bit_iff bit_ucast_iff high) 
  qed
qed

lemma bit_intToIP:
  assumes "k < 4" "j < 8"
  shows "bit (intToIP n ! k) j = bit n (8 * (3 - k) + j)"
proof -
  consider "k = 0" | "k = 1" | "k = 2" | "k = 3"
    using assms(1) by linarith
  then show ?thesis
    by cases (use assms(2) in \<open>simp_all add: intToIP_eq bit_ucast_iff bit_drop_bit_eq\<close>)
qed

lemma intToIP_binary4:
  assumes "length p = 4"
  shows "intToIP (binary4 p) = p"
proof (rule nth_equalityI)
  fix k
  assume "k < length (intToIP (binary4 p))"
  then have k: "k < 4"
    by simp
  show "intToIP (binary4 p) ! k = p ! k"
  proof (rule bit_word_eqI)
    fix j
    assume "j < LENGTH(8)"
    then have "j < 8"
      by simp
    moreover have "3 - (8 * (3 - k) + j) div 8 = k" "8 * (3 - k) + j < 32"
      using k \<open>j < 8\<close> by auto
    ultimately show "bit (intToIP (binary4 p) ! k) j = bit (p ! k) j"
      using k by (simp add: bit_intToIP bit_binary4)
  qed
qed (use assms in simp)

lemma binary4_intToIP [simp]: "binary4 (intToIP n) = n"
proof (rule bit_word_eqI)
  fix i
  assume "i < LENGTH(32)"
  then have i: "i < 32" "i div 8 \<le> 3"
    by auto
  then have "8 * (3 - (3 - i div 8)) + i mod 8 = i"
    by simp
  then show "bit (binary4 (intToIP n)) i = bit n i"
    using i by (simp add: bit_binary4 bit_intToIP)
qed

interpretation ip32: key_codec binary4 intToIP is_ip4
  by unfold_locales (simp add: is_ip4_def intToIP_binary4)

interpretation ip32_inv: key_codec intToIP binary4 "\<lambda>n. True"
  by unfold_locales simp

lemma binary4_sum:
  "binary4 p = push_bit 24 (ucast (p ! 0)) + (push_bit 16 (ucast (p ! 1)) +
     (push_bit 8 (ucast (p ! 2)) + ucast (p ! 3)))"
proof -
  have high: "\<not> bit b k" if "8 \<le> k" for b :: byte and k
    using that bit_imp_le_length[of b k] by auto
  let ?a = "ucast (p ! 0) :: 32 word" and ?b = "ucast (p ! 1) :: 32 word"
    and ?c = "ucast (p ! 2) :: 32 word" and ?d = "ucast (p ! 3) :: 32 word"
  have cd: "push_bit 8 ?c + ?d = push_bit 8 ?c OR ?d"
    by (rule disjunctive_add) (auto simp: bit_simps high)
  have bcd: "push_bit 16 ?b + (push_bit 8 ?c + ?d) = push_bit 16 ?b OR push_bit 8 ?c OR ?d"
    unfolding cd by (rule disjunctive_add) (auto simp: bit_simps high)
  have "push_bit 24 ?a + (push_bit 16 ?b + (push_bit 8 ?c + ?d)) =
      push_bit 24 ?a OR push_bit 16 ?b OR push_bit 8 ?c OR ?d"
    unfolding bcd by (rule disjunctive_add) (auto simp: bit_simps high)
  then show ?thesis
    by (simp add: binary4_def or.assoc)
qed

lemma unat_binary4:
  "unat (binary4 p) = unat (p ! 0) * 2 ^ 24 + unat (p ! 1) * 2 ^ 16 + unat (p ! 2) * 2 ^ 8 + unat (p ! 3)"
proof -
  have b: "unat (p ! k) < 256" for k
    using unsigned_less[of "p ! k", where 'a = nat] by simp
  have u: "unat (ucast (p ! k) :: 32 word) = unat (p ! k)" for k
    using b[of k] by (simp add: unsigned_ucast_eq take_bit_eq_mod)
  show ?thesis
    unfolding binary4_sum using b[of 0] b[of 1] b[of 2] b[of 3]
    by (simp add: unat_word_ariths push_bit_eq_mult u)
qed

subsection \<open>Masks as numbers\<close>

lemma mask_bits_Some:
  "mask_bits bs = Some n \<Longrightarrow> n \<le> length bs \<and> (\<forall>i < length bs. bs ! i \<longleftrightarrow> i < n)"
proof (induction bs arbitrary: n)
  case (Cons b bs)
  show ?case
  proof (cases b)
    case True
    with Cons.prems obtain k where "mask_bits bs = Some k" "n = Suc k"
      by auto
    then show ?thesis
      using Cons.IH True by (auto simp: nth_Cons split: nat.split)
  next
    case False
    with Cons.prems have "n = 0" "True \<notin> set bs"
      by (auto split: if_splits)
    moreover from this(2) have "\<forall>i < length bs. \<not> bs ! i"
      by (metis (full_types) nth_mem)
    ultimately show ?thesis
      using False by (auto simp: nth_Cons split: nat.split)
  qed
qed simp

lemma upt32: "[0..<32] = [0, 1, 2, 3, 4, 5, 6, 7, 8, 9, 10, 11, 12, 13, 14, 15, 16, 17, 18, 19, 20, 21, 22, 23, 24, 25, 26, 27, 28, 29, 30, 31]"
  by code_simp

lemma byte_bits4:
  assumes "length m = 4"
  shows "concat (map byte_bits m) = map (\<lambda>i. bit (binary4 m) (31 - i)) [0..<32]"
proof -
  obtain a b c d where m: "m = [a, b, c, d]"
    using assms by (elim list4E)
  show ?thesis
    by (simp add: m byte_bits_def upt32 bit_binary4)
qed

lemma mask_size_32:
  assumes "mask_size m = (ones, 32)"
  shows "length m = 4" "ones \<le> 32" "binary4 m = NOT (mask (32 - ones))"
proof -
  from assms obtain n where n: "mask_bits (concat (map byte_bits m)) = Some n" "ones = n" "8 * length m = 32"
    by (auto simp: mask_size_def split: option.splits)
  then show l: "length m = 4"
    by simp
  have all: "n \<le> 32 \<and> (\<forall>i < 32. bit (binary4 m) (31 - i) \<longleftrightarrow> i < n)"
    using mask_bits_Some[OF n(1)] unfolding byte_bits4[OF l] by simp
  then show "ones \<le> 32"
    using n by simp
  show "binary4 m = NOT (mask (32 - ones))"
  proof (rule bit_word_eqI)
    fix j
    assume "j < LENGTH(32)"
    then have "j < 32" "31 - (31 - j) = j" "31 - j < 32"
      by auto
    then have "bit (binary4 m) j \<longleftrightarrow> 31 - j < n"
      using all by metis
    then show "bit (binary4 m) j \<longleftrightarrow> bit (NOT (mask (32 - ones)) :: 32 word) j"
      using n(2) \<open>j < 32\<close> by (auto simp: bit_simps)
  qed
qed

lemma and_bytes_length [simp]: "length (and_bytes p m) = min (length p) (length m)"
  by (simp add: and_bytes_def)

lemma binary4_and:
  assumes "length p = 4" "length m = 4"
  shows "binary4 (and_bytes p m) = binary4 p AND binary4 m"
proof (rule bit_word_eqI)
  fix i
  assume "i < LENGTH(32)"
  then have "i < 32"
    by simp
  moreover have "3 - i div 8 < 4"
    by simp
  ultimately show "bit (binary4 (and_bytes p m)) i = bit (binary4 p AND binary4 m) i"
    using assms by (simp add: bit_binary4 and_bytes_def bit_and_iff)
qed

lemma binary4_eq_iff: "length p = 4 \<Longrightarrow> length q = 4 \<Longrightarrow> binary4 p = binary4 q \<longleftrightarrow> p = q"
  by (metis intToIP_binary4)

lemma net_contains_4:
  assumes "length (net_ip n) = 4" "length (net_mask n) = 4" "length p = 4"
  shows "net_contains n p \<longleftrightarrow>
    binary4 (net_ip n) AND binary4 (net_mask n) = binary4 p AND binary4 (net_mask n)"
proof -
  have "net_ip n \<noteq> []" "p \<noteq> []"
    using assms by auto
  then have "net_contains n p \<longleftrightarrow> and_bytes (net_ip n) (net_mask n) = and_bytes p (net_mask n)"
    using assms by (simp add: net_contains_def network_number_def Let_def)
  also have "\<dots> \<longleftrightarrow> binary4 (and_bytes (net_ip n) (net_mask n)) = binary4 (and_bytes p (net_mask n))"
    using assms by (simp add: binary4_eq_iff)
  finally show ?thesis
    using assms by (simp add: binary4_and)
qed

subsection \<open>The addresses of a block\<close>

lemma block_split:
  fixes w :: "32 word"
  shows "w = (w AND NOT (mask n)) + (w AND mask n)"
  by (subst disjunctive_add) (auto simp: bit_simps intro: bit_word_eqI)

lemma block_iff:
  fixes base w :: "32 word"
  assumes "n \<le> 32" "base AND NOT (mask n) = base"
  shows "w AND NOT (mask n) = base \<longleftrightarrow> (\<exists>i. 0 \<le> i \<and> i < 2 ^ n \<and> w = base + of_int i)"
proof
  assume w: "w AND NOT (mask n) = base"
  have "uint (w AND mask n) < 2 ^ n"
    using uint_lt2p[of w] by (simp add: take_bit_eq_mask[symmetric] unsigned_take_bit_eq)
  moreover have "w = base + of_int (uint (w AND mask n))"
    using block_split[of w n] w by simp
  ultimately show "\<exists>i. 0 \<le> i \<and> i < 2 ^ n \<and> w = base + of_int i"
    using uint_ge_0 by blast
next
  assume "\<exists>i. 0 \<le> i \<and> i < 2 ^ n \<and> w = base + of_int i"
  then obtain i where i: "0 \<le> i" "i < 2 ^ n" "w = base + of_int i"
    by blast
  have v: "bit (of_int i :: 32 word) j \<Longrightarrow> j < n" for j
  proof -
    assume "bit (of_int i :: 32 word) j"
    then have "bit i j"
      by (simp add: bit_simps)
    moreover have "take_bit n i = i"
      using i by (simp add: take_bit_int_eq_self_iff)
    ultimately show "j < n"
      by (metis bit_take_bit_iff)
  qed
  have b: "bit base j \<Longrightarrow> \<not> j < n" for j
    using assms(2) by (metis bit_and_iff bit_mask_iff bit_not_iff possible_bit_word bit_imp_le_length)
  have "w = base OR of_int i"
    unfolding i(3) by (rule disjunctive_add) (use v b in blast)
  then show "w AND NOT (mask n) = base"
    using v b by (auto simp: bit_simps intro!: bit_word_eqI)
qed

subsection \<open>What Detect returns\<close>

text \<open>The candidates of a list of interfaces, in the order the two loops meet them.\<close>

definition iface_candidates :: "(interface \<Rightarrow> if_addr list option) \<Rightarrow> interface \<Rightarrow> local_net list" where
  "iface_candidates addrs ifi =
     (if skip_iface ifi then []
      else case addrs ifi of None \<Rightarrow> [] | Some as \<Rightarrow> List.map_filter (addr_candidate ifi) as)"

definition candidates :: "(interface \<Rightarrow> if_addr list option) \<Rightarrow> interface list \<Rightarrow> local_net list" where
  "candidates addrs ifs = concat (map (iface_candidates addrs) ifs)"

lemma candidates_Cons:
  "candidates addrs (ifi # ifs) = iface_candidates addrs ifi @ candidates addrs ifs"
  by (simp add: candidates_def)

text \<open>Specification: the first private candidate, else the first candidate.\<close>

definition pick_net :: "local_net list \<Rightarrow> local_net option \<Rightarrow> local_net + local_net option" where
  "pick_net cs fb =
     (case find (\<lambda>ln. isPrivate (ln_ip ln)) cs of
        Some ln \<Rightarrow> Inl ln
      | None \<Rightarrow> Inr (if fb = None \<and> cs \<noteq> [] then Some (hd cs) else fb))"

lemma pick_net_append:
  "pick_net (xs @ ys) fb = (case pick_net xs fb of Inl ln \<Rightarrow> Inl ln | Inr fb' \<Rightarrow> pick_net ys fb')"
proof (cases "find (\<lambda>ln. isPrivate (ln_ip ln)) xs")
  case None
  moreover have "find (\<lambda>ln. isPrivate (ln_ip ln)) (xs @ ys) = find (\<lambda>ln. isPrivate (ln_ip ln)) ys"
    using None by (induction xs) (auto split: if_splits)
  ultimately show ?thesis
    by (cases xs) (auto simp: pick_net_def split: option.splits)
next
  case (Some ln)
  then have "find (\<lambda>ln. isPrivate (ln_ip ln)) (xs @ ys) = Some ln"
    by (induction xs) (auto split: if_splits)
  then show ?thesis
    using Some by (simp add: pick_net_def)
qed

lemma detect_addrs_pick:
  "detect_addrs ifi as fb = pick_net (List.map_filter (addr_candidate ifi) as) fb"
  by (induction ifi as fb rule: detect_addrs.induct)
    (auto simp: pick_net_def map_filter_simps split: option.splits)

lemma detect_ifaces_pick: "detect_ifaces addrs ifs fb = pick_net (candidates addrs ifs) fb"
proof (induction addrs ifs fb rule: detect_ifaces.induct)
  case (1 addrs fb)
  then show ?case
    by (simp add: candidates_def pick_net_def)
next
  case (2 addrs ifi ifs fb)
  have step: "pick_net (candidates addrs (ifi # ifs)) fb =
      (case pick_net (iface_candidates addrs ifi) fb of
         Inl ln \<Rightarrow> Inl ln | Inr fb' \<Rightarrow> pick_net (candidates addrs ifs) fb')"
    by (simp only: candidates_Cons pick_net_append)
  show ?case
    unfolding step using 2
    by (auto simp: iface_candidates_def detect_addrs_pick pick_net_def split: option.splits sum.splits)
qed

text \<open>What makes a local network usable by the later stages.\<close>

definition usable_net :: "local_net \<Rightarrow> bool" where
  "usable_net ln \<longleftrightarrow>
     is_ip4 (ln_ip ln) \<and> \<not> (ln_ip ln ! 0 = 169 \<and> ln_ip ln ! 1 = 254) \<and>
     \<not> skip_iface (ln_interface ln) \<and>
     net_ip (ln_network ln) = ip_mask (ln_ip ln) (net_mask (ln_network ln))"

lemma addr_candidate_usable:
  "addr_candidate ifi a = Some ln \<Longrightarrow> \<not> skip_iface ifi \<Longrightarrow> usable_net ln"
  using to4_not_Nil
  by (auto simp: addr_candidate_def usable_net_def is_ip4_def Let_def split: if_addr.splits if_splits)

lemma candidates_usable: "ln \<in> set (candidates addrs ifs) \<Longrightarrow> usable_net ln"
  by (auto simp: candidates_def iface_candidates_def map_filter_def addr_candidate_usable
      split: if_splits option.splits)

lemma Detect_cases:
  "Detect os name =
     (case list_ifaces os name of
        Inl e \<Rightarrow> Inl e
      | Inr ifs \<Rightarrow>
         (case find (\<lambda>ln. isPrivate (ln_ip ln)) (candidates (os_addrs os) ifs) of
            Some ln \<Rightarrow> Inr ln
          | None \<Rightarrow>
             (case candidates (os_addrs os) ifs of
                ln # _ \<Rightarrow> Inr ln
              | [] \<Rightarrow> if name \<noteq> [] then Inl (NoUsableAddress name) else Inl NoSuitableInterface)))"
  unfolding Detect_def detect_ifaces_pick pick_net_def
  by (auto split: sum.splits option.splits list.splits)

lemma Detect_usable:
  assumes "Detect os name = Inr ln"
  shows "usable_net ln"
proof -
  obtain ifs where "list_ifaces os name = Inr ifs"
    using assms by (auto simp: Detect_cases split: sum.splits)
  then have "ln \<in> set (candidates (os_addrs os) ifs)"
    using assms
    by (auto simp: Detect_cases find_Some_iff split: option.splits list.splits if_splits)
  then show ?thesis
    by (rule candidates_usable)
qed

subsection \<open>What Hosts returns\<close>

text \<open>The directed broadcast address of a network.\<close>

definition broadcast :: "ipnet \<Rightarrow> ip" where
  "broadcast n = intToIP (binary4 (net_ip n) OR NOT (binary4 (net_mask n)))"

text \<open>The addresses \<open>Hosts\<close> should enumerate: those of the block, without the network and the
  broadcast address unless the block is a /31 or a /32.\<close>

definition usable_hosts :: "ipnet \<Rightarrow> ip set" where
  "usable_hosts n =
     {p. is_ip4 p \<and> net_contains n p \<and>
         (fst (mask_size (net_mask n)) < 31 \<longrightarrow> p \<noteq> net_ip n \<and> p \<noteq> broadcast n)}"

lemma usable_net_block:
  assumes "usable_net ln" "mask_size (net_mask (ln_network ln)) = (ones, 32)"
  shows "length (net_ip (ln_network ln)) = 4"
    "binary4 (net_ip (ln_network ln)) AND NOT (mask (32 - ones)) = binary4 (net_ip (ln_network ln))"
proof -
  note m = mask_size_32[OF assms(2)]
  have p: "length (ln_ip ln) = 4"
    using assms(1) by (simp add: usable_net_def is_ip4_def)
  then have n: "net_ip (ln_network ln) = and_bytes (ln_ip ln) (net_mask (ln_network ln))"
    using assms(1) m(1) by (simp add: usable_net_def ip_mask_def)
  then show "length (net_ip (ln_network ln)) = 4"
    using p m(1) by simp
  show "binary4 (net_ip (ln_network ln)) AND NOT (mask (32 - ones)) = binary4 (net_ip (ln_network ln))"
    unfolding n binary4_and[OF p m(1)] m(3) by (simp add: and.assoc)
qed

lemma of_int_inj_32: "0 \<le> i \<Longrightarrow> i < 2 ^ 32 \<Longrightarrow> 0 \<le> j \<Longrightarrow> j < 2 ^ 32 \<Longrightarrow> (of_int i :: 32 word) = of_int j \<Longrightarrow> i = j"
  by (simp add: word_of_int_eq_iff take_bit_int_eq_self)

lemma Hosts_eq:
  assumes "mask_size (net_mask (ln_network ln)) = (ones, 32)" "length (net_ip (ln_network ln)) = 4"
    and "start = (if ones \<ge> 31 then 0 else 1)" "stop = (if ones \<ge> 31 then 2 ^ (32 - ones) else 2 ^ (32 - ones) - 1)"
  shows "Hosts ln mx =
    (if mx > 0 \<and> stop - start > mx then Some (Inl (TooManyHosts (CIDR ln) (nat (stop - start)) mx))
     else Some (Inr (map (\<lambda>i. intToIP (binary4 (net_ip (ln_network ln)) + of_int i)) [start..stop - 1])))"
proof (cases "ones \<ge> 31")
  case True
  then show ?thesis
    using assms by (auto simp: Hosts_def binaryIP_def Let_def)
next
  case False
  then have "(2 :: int) ^ 2 \<le> 2 ^ (32 - ones)"
    by (intro power_increasing) auto
  then show ?thesis
    using assms False by (auto simp: Hosts_def binaryIP_def Let_def)
qed

lemma Hosts_set:
  fixes n :: ipnet
  assumes "mask_size (net_mask n) = (ones, 32)" "length (net_ip n) = 4"
    and "binary4 (net_ip n) AND NOT (mask (32 - ones)) = binary4 (net_ip n)"
    and "start = (if ones \<ge> 31 then 0 else 1)" "stop = (if ones \<ge> 31 then 2 ^ (32 - ones) else 2 ^ (32 - ones) - 1)"
  shows "set (map (\<lambda>i. intToIP (binary4 (net_ip n) + of_int i)) [start..stop - 1]) = usable_hosts n"
    "distinct (map (\<lambda>i. intToIP (binary4 (net_ip n) + of_int i)) [start..stop - 1])"
proof -
  note m = mask_size_32[OF assms(1)]
  define base where "base = binary4 (net_ip n)"
  define hb where "hb = 32 - ones"
  have hb: "hb \<le> 32" and b: "base AND NOT (mask hb) = base"
    using assms(3) by (auto simp: base_def hb_def)
  have pow: "(2 :: int) ^ hb \<le> 2 ^ 32"
    using hb by (intro power_increasing) auto
  have inj: "i = j" if "0 \<le> i" "i < 2 ^ hb" "0 \<le> j" "j < 2 ^ hb" "base + of_int i = base + of_int j" for i j
    using that pow of_int_inj_32[of i j] by simp
  have range: "0 \<le> i \<and> i < 2 ^ hb" if "i \<in> {start..stop - 1}" for i
    using that assms(4,5) by (auto simp: hb_def split: if_splits)
  have net: "intToIP base = net_ip n"
    using assms(2) by (simp add: base_def intToIP_binary4)
  have bc: "broadcast n = intToIP (base + of_int (2 ^ hb - 1))"
  proof -
    have "base OR mask hb = base + mask hb"
      by (rule disjunctive_add[symmetric]) (use b in \<open>metis bit_and_iff bit_not_iff_eq bit_mask_iff bit_not_iff\<close>)
    then show ?thesis
      using m(3) by (simp add: broadcast_def base_def hb_def mask_eq_exp_minus_1)
  qed
  have mem: "is_ip4 p \<and> net_contains n p \<longleftrightarrow>
      (\<exists>i. 0 \<le> i \<and> i < 2 ^ hb \<and> p = intToIP (base + of_int i))" for p
  proof -
    have "net_contains n p \<longleftrightarrow> binary4 p AND NOT (mask hb) = base" if "length p = 4"
      using net_contains_4[OF assms(2) m(1) that] b m(3) by (auto simp: base_def hb_def)
    then show ?thesis
      unfolding is_ip4_def using block_iff[OF hb b, of "binary4 p"]
      by (metis binary4_intToIP intToIP_binary4 intToIP_length)
  qed
  show "set (map (\<lambda>i. intToIP (binary4 (net_ip n) + of_int i)) [start..stop - 1]) = usable_hosts n"
  proof (cases "ones \<ge> 31")
    case True
    then show ?thesis
      using assms(1,4,5) mem by (auto simp: usable_hosts_def image_iff hb_def[symmetric] base_def[symmetric])
  next
    case False
    have ends: "intToIP (base + of_int i) = net_ip n \<longleftrightarrow> i = 0"
      "intToIP (base + of_int i) = broadcast n \<longleftrightarrow> i = 2 ^ hb - 1" if "0 \<le> i" "i < 2 ^ hb" for i
      unfolding bc net[symmetric] using inj[of i 0] inj[of i "2 ^ hb - 1"] that
      by (auto dest!: ip32_inv.key_inj[OF TrueI TrueI])
    have "set (map (\<lambda>i. intToIP (base + of_int i)) [start..stop - 1]) =
        (\<lambda>i. intToIP (base + of_int i)) ` {i. 0 \<le> i \<and> i < 2 ^ hb \<and> i \<noteq> 0 \<and> i \<noteq> 2 ^ hb - 1}"
      using assms(4,5) False by (auto simp: hb_def[symmetric] intro!: imageI)
    also have "\<dots> = {p. (\<exists>i. 0 \<le> i \<and> i < 2 ^ hb \<and> p = intToIP (base + of_int i)) \<and>
        p \<noteq> net_ip n \<and> p \<noteq> broadcast n}" (is "?A = ?B")
    proof (intro set_eqI iffI)
      fix p assume "p \<in> ?A"
      then obtain i where i: "0 \<le> i" "i < 2 ^ hb" "i \<noteq> 0" "i \<noteq> 2 ^ hb - 1" "p = intToIP (base + of_int i)"
        by (elim imageE CollectE conjE)
      show "p \<in> ?B"
        unfolding mem_Collect_eq i(5) ends[OF i(1,2)] using i(1-4) by blast
    next
      fix p assume "p \<in> ?B"
      then obtain i where i: "0 \<le> i" "i < 2 ^ hb" "p = intToIP (base + of_int i)"
        "p \<noteq> net_ip n" "p \<noteq> broadcast n"
        by (elim CollectE conjE exE)
      then have "i \<noteq> 0" "i \<noteq> 2 ^ hb - 1"
        using ends[OF i(1,2)] by simp_all
      then show "p \<in> ?A"
        unfolding i(3) by (intro imageI) (simp add: i(1,2))
    qed
    also have "\<dots> = usable_hosts n"
      unfolding usable_hosts_def mem[symmetric] using False assms(1) by auto
    finally show ?thesis
      by (simp only: base_def)
  qed
  show "distinct (map (\<lambda>i. intToIP (binary4 (net_ip n) + of_int i)) [start..stop - 1])"
    using range inj unfolding distinct_map base_def[symmetric]
    by (auto simp: inj_on_def dest!: ip32_inv.key_inj[OF TrueI TrueI])
qed

lemma Hosts_not_4: "snd (mask_size (net_mask (ln_network ln))) \<noteq> 32 \<Longrightarrow> Hosts ln mx = Some (Inl OnlyIPv4)"
  by (simp add: Hosts_def case_prod_beta)

text \<open>The contract of \<open>Hosts\<close> on a result.\<close>

definition hosts_ok :: "local_net \<Rightarrow> int \<Rightarrow> hosts_error + ip list \<Rightarrow> bool" where
  "hosts_ok ln mx r =
     (case r of
        Inl OnlyIPv4 \<Rightarrow> snd (mask_size (net_mask (ln_network ln))) \<noteq> 32
      | Inl (NoHosts n) \<Rightarrow> False
      | Inl (TooManyHosts cidr cnt m) \<Rightarrow>
          cidr = CIDR ln \<and> m = mx \<and> 0 < mx \<and> mx < int cnt \<and> cnt = card (usable_hosts (ln_network ln))
      | Inr hs \<Rightarrow>
          distinct hs \<and> set hs = usable_hosts (ln_network ln) \<and> (0 < mx \<longrightarrow> int (length hs) \<le> mx))"

lemma Hosts_usable:
  assumes "usable_net ln"
  obtains r where "Hosts ln mx = Some r" "hosts_ok ln mx r"
proof (cases "snd (mask_size (net_mask (ln_network ln))) = 32")
  case False
  then show ?thesis
    using that[OF Hosts_not_4[OF False]] by (simp add: hosts_ok_def)
next
  case True
  define n where "n = ln_network ln"
  obtain ones where m: "mask_size (net_mask n) = (ones, 32)"
    using True by (metis n_def prod.collapse)
  note block = usable_net_block[OF assms m[unfolded n_def], folded n_def]
  define start :: int where "start = (if ones \<ge> 31 then 0 else 1)"
  define stop :: int where "stop = (if ones \<ge> 31 then 2 ^ (32 - ones) else 2 ^ (32 - ones) - 1)"
  define hs where "hs = map (\<lambda>i. intToIP (binary4 (net_ip n) + of_int i)) [start..stop - 1]"
  have hs: "set hs = usable_hosts n" "distinct hs" "length hs = nat (stop - start)"
    using Hosts_set[OF m block start_def stop_def] by (simp_all add: hs_def)
  then have card: "card (usable_hosts n) = nat (stop - start)"
    by (metis distinct_card)
  have eq: "Hosts ln mx = (if mx > 0 \<and> stop - start > mx
      then Some (Inl (TooManyHosts (CIDR ln) (nat (stop - start)) mx)) else Some (Inr hs))"
    using Hosts_eq[OF m[unfolded n_def] block(1)[unfolded n_def] start_def stop_def]
    by (simp add: hs_def n_def)
  show ?thesis
  proof (cases "mx > 0 \<and> stop - start > mx")
    case True
    then show ?thesis
      using that eq card by (simp add: hosts_ok_def n_def)
  next
    case False
    then show ?thesis
      using that eq hs by (auto simp: hosts_ok_def n_def)
  qed
qed

subsection \<open>Properties\<close>

text \<open>C3.  Host enumeration on a network \<open>Detect\<close> chose: \<open>Hosts\<close> does not panic; it answers with
  an error exactly for a mask that is not an IPv4 one or when the block has more hosts than the
  limit, and otherwise lists every host of the block once, without network and broadcast address
  (kept in a /31 and a /32), and nothing else.  The branch \<open>no host addresses\<close> is never taken.\<close>

theorem Hosts_correct:
  assumes "Detect os name = Inr ln"
  shows "\<exists>r. Hosts ln mx = Some r \<and> hosts_ok ln mx r"
  using Hosts_usable[OF Detect_usable[OF assms]] by metis

definition demo_os :: os_net where
  "demo_os = \<lparr>os_interface_by_name = (\<lambda>n. Inl ''no such network interface''),
     os_interfaces = Inr
       [\<lparr>if_name = ''lo'', if_flags = 5, if_hwaddr = []\<rparr>,
        \<lparr>if_name = ''eth0'', if_flags = 19, if_hwaddr = [2, 0, 0, 0, 0, 1]\<rparr>],
     os_addrs = (\<lambda>i. if if_name i = ''lo'' then Some [IPNetAddr \<lparr>net_ip = ipv4 127 0 0 1, net_mask = cidr_mask4 8\<rparr>]
       else Some [OtherAddr, IPNetAddr \<lparr>net_ip = ipv4 169 254 7 7, net_mask = cidr_mask4 16\<rparr>,
         IPNetAddr \<lparr>net_ip = ipv4 8 8 8 9, net_mask = cidr_mask4 30\<rparr>,
         IPNetAddr \<lparr>net_ip = ipv4 192 168 7 10, net_mask = cidr_mask4 29\<rparr>])\<rparr>"

definition demo_net :: local_net where
  "demo_net = \<lparr>ln_interface = \<lparr>if_name = ''eth0'', if_flags = 19, if_hwaddr = [2, 0, 0, 0, 0, 1]\<rparr>,
     ln_ip = [192, 168, 7, 10], ln_network = \<lparr>net_ip = [192, 168, 7, 8], net_mask = [255, 255, 255, 248]\<rparr>\<rparr>"

lemma demo_detect: "Detect demo_os [] = Inr demo_net"
  by code_simp

lemma demo_hosts: "Hosts demo_net 4096 = Some (Inr (map (\<lambda>k. [192, 168, 7, k]) [9, 10, 11, 12, 13, 14]))"
  by code_simp

theorem Hosts_correct_witness:
  "usable_hosts (ln_network demo_net) = set (map (\<lambda>k. [192, 168, 7, k]) [9, 10, 11, 12, 13, 14])"
  using Hosts_correct[OF demo_detect, of 4096] unfolding demo_hosts by (simp add: hosts_ok_def)

text \<open>C38.  What \<open>Detect\<close> answers: an interface that is up, not a loopback and has a hardware
  address, an IPv4 address on it outside 169.254/16, and the network of that address; no candidate
  is private unless the answer is, and a public answer is the first candidate.\<close>

theorem Detect_prefers_private:
  assumes "Detect os name = Inr ln"
  shows "usable_net ln \<and> (\<exists>ifs. list_ifaces os name = Inr ifs \<and> ln \<in> set (candidates (os_addrs os) ifs) \<and>
    (isPrivate (ln_ip ln) \<or>
      (\<forall>c \<in> set (candidates (os_addrs os) ifs). \<not> isPrivate (ln_ip c)) \<and> ln = hd (candidates (os_addrs os) ifs)))"
proof -
  obtain ifs where ifs: "list_ifaces os name = Inr ifs"
    using assms by (auto simp: Detect_cases split: sum.splits)
  then have "ln \<in> set (candidates (os_addrs os) ifs) \<and>
    (isPrivate (ln_ip ln) \<or>
      (\<forall>c \<in> set (candidates (os_addrs os) ifs). \<not> isPrivate (ln_ip c)) \<and> ln = hd (candidates (os_addrs os) ifs))"
    using assms
    by (auto simp: Detect_cases find_Some_iff find_None_iff split: option.splits list.splits if_splits)
  then show ?thesis
    using ifs Detect_usable[OF assms] by blast
qed

lemma demo_private: "isPrivate (ln_ip demo_net)"
  by code_simp

theorem Detect_prefers_private_witness: "usable_net demo_net \<and> isPrivate (ln_ip demo_net)"
  using Detect_prefers_private[OF demo_detect] demo_private by blast

text \<open>C39.  The private ranges are the three blocks of RFC 1918, octet by octet.\<close>

theorem isPrivate_ranges:
  "isPrivate [a, b, c, d] \<longleftrightarrow>
     a = 10 \<or> a = 172 \<and> 16 \<le> unat b \<and> unat b < 32 \<or> a = 192 \<and> b = 168"
proof -
  have m: "cidr_mask4 8 = [255, 0, 0, 0]" "cidr_mask4 12 = [255, 240, 0, 0]" "cidr_mask4 16 = [255, 255, 0, 0]"
    by code_simp+
  have "(255 :: byte) = - 1"
    by simp
  then have ff: "255 AND x = x" "x AND 255 = x" for x :: byte
    by (simp_all only: and.left_neutral and.right_neutral)
  have hi: "16 = b AND 240 \<longleftrightarrow> 16 \<le> unat b \<and> unat b < 32"
  proof -
    have m: "(240 :: byte) = NOT (mask 4)"
      by (simp add: mask_eq_exp_minus_1)
    have "b AND 240 = push_bit 4 (drop_bit 4 b)"
      unfolding m by (rule bit_word_eqI) (auto simp: bit_simps)
    moreover have "push_bit 4 (drop_bit 4 b) = 16 \<longleftrightarrow> unat (push_bit 4 (drop_bit 4 b)) = 16"
      by (simp add: word_unat_eq_iff)
    moreover have "unat (push_bit 4 (drop_bit 4 b)) = unat b div 16 * 16"
      using unsigned_less[of b, where 'a = nat]
      by (simp add: unsigned_push_bit_eq unsigned_drop_bit_eq push_bit_eq_mult [where 'a = nat]
          drop_bit_eq_div [where 'a = nat] take_bit_eq_mod)
    ultimately have "16 = b AND 240 \<longleftrightarrow> unat b div 16 * 16 = 16"
      by (metis (no_types))
    moreover have "16 * (n div 16) \<le> n \<and> n < 16 + 16 * (n div 16)" for n :: nat
      using div_mod_decomp[of n 16] mod_less_divisor[of 16 n] by linarith
    from this[of "unat b"] have "unat b div 16 = 1 \<longleftrightarrow> 16 \<le> unat b \<and> unat b < 32"
      by linarith
    ultimately show ?thesis
      by simp
  qed
  have in_net: "net_contains \<lparr>net_ip = ipv4 p q 0 0, net_mask = [x, y, 0, 0]\<rparr> [a, b, c, d] \<longleftrightarrow>
      p AND x = a AND x \<and> q AND y = b AND y" for p q x y
    by (simp add: net_contains_def network_number_def ipv4_def and_bytes_def Let_def)
  have k: "(10 :: byte) AND 255 = 10" "(172 :: byte) AND 255 = 172" "(192 :: byte) AND 255 = 192"
    "(168 :: byte) AND 255 = 168" "(16 :: byte) AND 240 = 16"
    by simp_all
  show ?thesis
    unfolding isPrivate_def private_nets_def by (simp only: list_ex_iff set_simps bex_simps in_net m ff hi k) (auto simp: ff k hi)
qed

end
