(* ===== verification/Pipeline.thy ===== *)
theory Pipeline
  imports Device Iface
begin

text \<open>
  \<open>internal/pipeline/pipeline.go\<close>: the stages run one after the other over the same targets, and
  the devices they report are merged by address.

  A stage changes the world it runs in (the network, the clock, what has been written to standard
  error), so the state \<open>'w\<close> of that world is passed along; the callbacks of a request are
  functions on it, and so is the context, whose \<open>Err\<close> is a predicate of the world.  An error is its
  text.
\<close>

subsection \<open>The merge\<close>

definition cloneNeighbors :: "neighbor list \<Rightarrow> neighbor list" where
  "cloneNeighbors xs = (if length xs = 0 then [] else [] @ xs)"

definition cloneIfaces :: "iface_counters list \<Rightarrow> iface_counters list" where
  "cloneIfaces xs = (if length xs = 0 then [] else [] @ xs)"

definition cloneDevice :: "device \<Rightarrow> device" where
  "cloneDevice d =
     d\<lparr>IP := (if IP d \<noteq> [] then [] @ IP d else IP d),
       MAC := (if MAC d \<noteq> [] then [] @ MAC d else MAC d),
       SysInfo := (SysInfo d)\<lparr>Neighbors := cloneNeighbors (Neighbors (SysInfo d)),
                             Interfaces := cloneIfaces (Interfaces (SysInfo d))\<rparr>\<rparr>"

text \<open>The updates of the row already there, field by field as in the code.\<close>

definition merge_mac :: "device \<Rightarrow> device \<Rightarrow> device" where
  "merge_mac d e = (if length (MAC e) = 0 \<and> length (MAC d) > 0 then e\<lparr>MAC := [] @ MAC d\<rparr> else e)"

definition merge_vendor :: "device \<Rightarrow> device \<Rightarrow> device" where
  "merge_vendor d e =
     (if Vendor d \<noteq> [] \<and> \<not> VendorUnset (Vendor d) \<and> VendorUnset (Vendor e)
      then e\<lparr>Vendor := Vendor d\<rparr> else e)"

definition merge_type :: "device \<Rightarrow> device \<Rightarrow> device" where
  "merge_type d e =
     (if Type e = [] \<and> Type d \<noteq> [] then e\<lparr>Type := Type d\<rparr>
      else if Type e = TypeUnknown \<and> Type d = TypeNetwork then e\<lparr>Type := Type d\<rparr>
      else e)"

definition merge_hostname :: "device \<Rightarrow> device \<Rightarrow> device" where
  "merge_hostname d e = (if Hostname e = [] \<and> Hostname d \<noteq> [] then e\<lparr>Hostname := Hostname d\<rparr> else e)"

definition merge_status :: "device \<Rightarrow> device \<Rightarrow> device" where
  "merge_status d e =
     (if Status e = [] \<and> Status d \<noteq> [] then e\<lparr>Status := Status d\<rparr>
      else if Status d = StatusUp then e\<lparr>Status := StatusUp\<rparr>
      else e)"

definition merge_info :: "sys_info \<Rightarrow> sys_info \<Rightarrow> sys_info" where
  "merge_info d e =
     (if Empty e \<and> \<not> Empty d
      then d\<lparr>Neighbors := cloneNeighbors (Neighbors d), Interfaces := cloneIfaces (Interfaces d)\<rparr>
      else
        let e1 = (if length (Neighbors e) = 0 \<and> length (Neighbors d) > 0
                  then e\<lparr>Neighbors := cloneNeighbors (Neighbors d)\<rparr> else e)
        in if length (Interfaces e1) = 0 \<and> length (Interfaces d) > 0
           then e1\<lparr>Interfaces := cloneIfaces (Interfaces d)\<rparr> else e1)"

definition merge_row :: "device \<Rightarrow> device \<Rightarrow> device" where
  "merge_row d e =
     (let e = merge_mac d e; e = merge_vendor d e; e = merge_type d e;
          e = merge_hostname d e; e = merge_status d e
      in e\<lparr>SysInfo := merge_info (SysInfo d) (SysInfo e)\<rparr>)"

definition device_addr :: "device \<Rightarrow> ip" where
  "device_addr d = (let ip = to4 (IP d) in if ip = [] then IP d else ip)"

definition mergeDevice :: "(string, device) gomap \<Rightarrow> device \<Rightarrow> (string, device) gomap" where
  "mergeDevice dst d =
     (let ip = device_addr d in
      if length ip = 0 then dst
      else let key = ip_string ip in
        case map_get dst key of
          None \<Rightarrow> map_put key ((cloneDevice d)\<lparr>IP := [] @ ip\<rparr>) dst
        | Some existing \<Rightarrow> map_put key (merge_row d existing) dst)"

text \<open>\<open>toSlice\<close>, with the order of the iteration over the map as a parameter.\<close>

definition finish_row :: "device \<Rightarrow> device" where
  "finish_row d =
     (let d = (if Status d = [] then d\<lparr>Status := StatusUp\<rparr> else d)
      in if Type d = [] then d\<lparr>Type := TypeUnknown\<rparr> else d)"

definition toSlice ::
  "((string, device) gomap \<Rightarrow> (string, device) gomap) \<Rightarrow> (string, device) gomap \<Rightarrow> device list" where
  "toSlice iter m = (if length m = 0 then [] else map (\<lambda>(k, d). finish_row d) (iter m))"

subsection \<open>The stages\<close>

record 'w request =
  req_Iface :: interface
  req_SrcIP :: ip
  req_Targets :: "ip list"
  req_Workers :: int
  req_Timeout :: int
  req_Progress :: "(string \<Rightarrow> int \<Rightarrow> int \<Rightarrow> 'w \<Rightarrow> 'w) option"
  req_Warn :: "(string \<Rightarrow> string \<Rightarrow> 'w \<Rightarrow> 'w) option"

text \<open>A method: its name, whether it implements \<open>SoftFailer\<close> and returns true, and its run.\<close>

record 'w pmethod =
  m_Name :: string
  m_SoftFail :: bool
  m_Run :: "'w request \<Rightarrow> 'w \<Rightarrow> (device list \<times> string option) \<times> 'w"

fun run_stages ::
  "((string, device) gomap \<Rightarrow> (string, device) gomap) \<Rightarrow> ('w \<Rightarrow> bool) \<Rightarrow> 'w request \<Rightarrow>
   'w pmethod list \<Rightarrow> (string, device) gomap \<Rightarrow> 'w \<Rightarrow> (device list \<times> string option) \<times> 'w" where
  "run_stages iter ctx_err req [] merged w = ((toSlice iter merged, None), w)"
| "run_stages iter ctx_err req (m # ms) merged w =
     (if ctx_err w then ((toSlice iter merged, None), w)
      else case m_Run m req w of
        ((devs, Some err), w1) \<Rightarrow>
          if m_SoftFail m
          then run_stages iter ctx_err req ms merged
                 (case req_Warn req of Some warn \<Rightarrow> warn (m_Name m) err w1 | None \<Rightarrow> w1)
          else ((toSlice iter merged, Some err), w1)
      | ((devs, None), w1) \<Rightarrow>
          run_stages iter ctx_err req ms (foldl mergeDevice merged devs) w1)"

text \<open>\<open>Pipeline.Run\<close> on a pipeline given by its methods; \<open>None\<close> is a nil pipeline.\<close>

definition pipeline_Run ::
  "((string, device) gomap \<Rightarrow> (string, device) gomap) \<Rightarrow> ('w \<Rightarrow> bool) \<Rightarrow> 'w pmethod list option \<Rightarrow>
   'w request \<Rightarrow> 'w \<Rightarrow> (device list \<times> string option) \<times> 'w" where
  "pipeline_Run iter ctx_err p req w =
     (case p of
        None \<Rightarrow> (([], None), w)
      | Some methods \<Rightarrow>
          if length methods = 0 then (([], None), w)
          else run_stages iter ctx_err req methods [] w)"

subsection \<open>Interface: a merge that only fills in\<close>

text \<open>
  What the pipeline needs of the merge of one report into one row: a report that is already merged
  changes nothing, it is not lost when others are merged, and the row only grows in an order of the
  information it holds.
\<close>

locale filling =
  fixes merge :: "'d \<Rightarrow> 'r \<Rightarrow> 'r" and le :: "'r \<Rightarrow> 'r \<Rightarrow> bool"
  assumes merge_idem: "merge d (merge d e) = merge d e"
    and merge_keeps: "merge x e = e \<Longrightarrow> merge x (merge d e) = merge d e"
    and le_refl: "le e e"
    and le_trans: "le e f \<Longrightarrow> le f g \<Longrightarrow> le e g"
    and le_merge: "le e (merge d e)"
begin

definition merges :: "'d list \<Rightarrow> 'r \<Rightarrow> 'r" where
  "merges ds e = foldl (\<lambda>e d. merge d e) e ds"

lemma merges_simps: "merges [] e = e" "merges (d # ds) e = merges ds (merge d e)"
  by (simp_all add: merges_def)

lemma keeps_merges: "merge x e = e \<Longrightarrow> merge x (merges ds e) = merges ds e"
  by (induction ds arbitrary: e) (simp_all add: merges_simps merge_keeps)

lemma absorbed: "x \<in> set ds \<Longrightarrow> merge x (merges ds e) = merges ds e"
  by (induction ds arbitrary: e) (auto simp: merges_simps merge_idem intro: keeps_merges)

lemma merges_absorbed: "(\<And>x. x \<in> set ds \<Longrightarrow> merge x e = e) \<Longrightarrow> merges ds e = e"
  by (induction ds) (simp_all add: merges_simps)

lemma merges_again: "set ds' \<subseteq> set ds \<Longrightarrow> merges ds' (merges ds e) = merges ds e"
  by (rule merges_absorbed) (auto intro: absorbed)

lemma merges_le: "le e (merges ds e)"
  by (induction ds arbitrary: e) (auto simp: merges_simps intro: le_refl le_trans le_merge)

end

subsection \<open>The fields of a merged row\<close>

lemma clones [simp, merge_simps]:
  "cloneNeighbors ns = ns" "cloneIfaces is = is" "cloneDevice d = d"
  by (simp_all add: cloneNeighbors_def cloneIfaces_def cloneDevice_def)

lemma Empty_lists [simp]: "Empty e \<Longrightarrow> Neighbors e = []" "Empty e \<Longrightarrow> Interfaces e = []"
  by (simp_all add: Empty_def)

lemma merge_info_fields [merge_simps]:
  "Neighbors (merge_info d e) = (if Neighbors e = [] then Neighbors d else Neighbors e)"
  "Interfaces (merge_info d e) = (if Interfaces e = [] then Interfaces d else Interfaces e)"
  by (simp_all add: merge_info_def Let_def)

lemma merge_info_scalars [merge_simps]:
  "(merge_info d e)\<lparr>Neighbors := [], Interfaces := []\<rparr> =
   (if Empty e then d else e)\<lparr>Neighbors := [], Interfaces := []\<rparr>"
  by (simp add: merge_info_def Let_def Empty_iff)

lemma merge_mac_fields [simp]:
  "MAC (merge_mac d e) = (if MAC e = [] then MAC d else MAC e)"
  "IP (merge_mac d e) = IP e" "Vendor (merge_mac d e) = Vendor e" "Hostname (merge_mac d e) = Hostname e" "Status (merge_mac d e) = Status e"
   "Type (merge_mac d e) = Type e" "SysInfo (merge_mac d e) = SysInfo e"
  by (auto simp: merge_mac_def)

lemma merge_vendor_fields [simp]:
  "Vendor (merge_vendor d e) = (if VendorUnset (Vendor e) \<and> \<not> VendorUnset (Vendor d) then Vendor d else Vendor e)"
  "IP (merge_vendor d e) = IP e" "MAC (merge_vendor d e) = MAC e" "Hostname (merge_vendor d e) = Hostname e" "Status (merge_vendor d e) = Status e"
   "Type (merge_vendor d e) = Type e" "SysInfo (merge_vendor d e) = SysInfo e"
  by (auto simp: merge_vendor_def)

lemma merge_type_fields [simp]:
  "Type (merge_type d e) = (if Type e = [] \<or> Type e = TypeUnknown \<and> Type d = TypeNetwork then Type d else Type e)"
  "IP (merge_type d e) = IP e" "MAC (merge_type d e) = MAC e" "Vendor (merge_type d e) = Vendor e" "Hostname (merge_type d e) = Hostname e"
   "Status (merge_type d e) = Status e" "SysInfo (merge_type d e) = SysInfo e"
  by (auto simp: merge_type_def)

lemma merge_hostname_fields [simp]:
  "Hostname (merge_hostname d e) = (if Hostname e = [] then Hostname d else Hostname e)"
  "IP (merge_hostname d e) = IP e" "MAC (merge_hostname d e) = MAC e" "Vendor (merge_hostname d e) = Vendor e" "Status (merge_hostname d e) = Status e"
   "Type (merge_hostname d e) = Type e" "SysInfo (merge_hostname d e) = SysInfo e"
  by (auto simp: merge_hostname_def)

lemma merge_status_fields [simp]:
  "Status (merge_status d e) = (if Status e = [] \<or> Status d = StatusUp then Status d else Status e)"
  "IP (merge_status d e) = IP e" "MAC (merge_status d e) = MAC e" "Vendor (merge_status d e) = Vendor e" "Hostname (merge_status d e) = Hostname e"
   "Type (merge_status d e) = Type e" "SysInfo (merge_status d e) = SysInfo e"
  by (auto simp: merge_status_def)

lemma merge_row_fields [merge_simps]:
  "IP (merge_row d e) = IP e"
  "MAC (merge_row d e) = (if MAC e = [] then MAC d else MAC e)"
  "Vendor (merge_row d e) = (if VendorUnset (Vendor e) \<and> \<not> VendorUnset (Vendor d) then Vendor d else Vendor e)"
  "Type (merge_row d e) =
     (if Type e = [] \<or> Type e = TypeUnknown \<and> Type d = TypeNetwork then Type d else Type e)"
  "Hostname (merge_row d e) = (if Hostname e = [] then Hostname d else Hostname e)"
  "Status (merge_row d e) = (if Status e = [] \<or> Status d = StatusUp then Status d else Status e)"
  "SysInfo (merge_row d e) = merge_info (SysInfo d) (SysInfo e)"
  by (simp_all add: merge_row_def Let_def)

lemma sys_info_eqI:
  "s\<lparr>Neighbors := [], Interfaces := []\<rparr> = t\<lparr>Neighbors := [], Interfaces := []\<rparr> \<Longrightarrow>
   Neighbors s = Neighbors t \<Longrightarrow> Interfaces s = Interfaces t \<Longrightarrow> s = t"
  by (cases s; cases t) simp

lemma device_eqI:
  "IP d = IP e \<Longrightarrow> MAC d = MAC e \<Longrightarrow> Vendor d = Vendor e \<Longrightarrow> Hostname d = Hostname e \<Longrightarrow>
   Status d = Status e \<Longrightarrow> Type d = Type e \<Longrightarrow> SysInfo d = SysInfo e \<Longrightarrow> (d :: device) = e"
  by (cases d; cases e) simp

lemma merge_info_empty [simp]: "Empty d \<Longrightarrow> merge_info d e = e"
  by (simp add: merge_info_def)

lemma Empty_fields:
  "Empty s \<longleftrightarrow> s\<lparr>Neighbors := [], Interfaces := []\<rparr> = zero_info \<and> Neighbors s = [] \<and> Interfaces s = []"
  by (cases s) (auto simp: Empty_iff zero_info_def)

lemma Empty_merge_info [simp]: "Empty (merge_info d e) \<longleftrightarrow> Empty d \<and> Empty e"
proof (cases "Empty e \<longrightarrow> Empty d")
  case True
  have "Empty e" if "Empty (merge_info d e)"
  proof (rule ccontr)
    assume "\<not> Empty e"
    then have "e\<lparr>Neighbors := [], Interfaces := []\<rparr> = zero_info" "Neighbors e = []" "Interfaces e = []"
      using that Empty_fields[of "merge_info d e"] merge_info_scalars[of d e] merge_info_fields[of d e]
      by (metis, metis, metis)
    then show False
      using \<open>\<not> Empty e\<close> Empty_fields[of e] by blast
  qed
  then show ?thesis
    using True merge_info_empty by metis
next
  case False
  then have "merge_info d e = d"
    by (simp add: merge_info_def)
  then show ?thesis
    using False by simp
qed

lemma merge_info_absorb:
  "merge_info d e = e \<longleftrightarrow>
     (Empty e \<longrightarrow> Empty d) \<and> (Neighbors e = [] \<longrightarrow> Neighbors d = []) \<and> (Interfaces e = [] \<longrightarrow> Interfaces d = [])"
  (is "?L \<longleftrightarrow> ?R")
proof
  assume l: ?L
  have "Empty e \<longrightarrow> Empty d"
    using Empty_merge_info[of d e] l by metis
  moreover have "Neighbors e = [] \<longrightarrow> Neighbors d = []" "Interfaces e = [] \<longrightarrow> Interfaces d = []"
    using merge_info_fields[of d e] l by metis+
  ultimately show ?R
    by blast
next
  assume r: ?R
  show ?L
  proof (rule sys_info_eqI)
    show "(merge_info d e)\<lparr>Neighbors := [], Interfaces := []\<rparr> = e\<lparr>Neighbors := [], Interfaces := []\<rparr>"
      unfolding merge_info_scalars using r by (cases "Empty e") (simp_all add: Empty_iff)
  qed (use r in \<open>simp_all add: merge_info_fields\<close>)
qed

lemma merge_row_absorb:
  "merge_row d e = e \<longleftrightarrow>
     (MAC e = [] \<longrightarrow> MAC d = []) \<and>
     (VendorUnset (Vendor e) \<longrightarrow> VendorUnset (Vendor d)) \<and>
     (Type e = [] \<longrightarrow> Type d = []) \<and> (Type e = TypeUnknown \<longrightarrow> Type d \<noteq> TypeNetwork) \<and>
     (Hostname e = [] \<longrightarrow> Hostname d = []) \<and>
     (Status e = [] \<longrightarrow> Status d = []) \<and> (Status d = StatusUp \<longrightarrow> Status e = StatusUp) \<and>
     merge_info (SysInfo d) (SysInfo e) = SysInfo e"
  (is "?L \<longleftrightarrow> ?R")
proof
  assume ?L
  then have eqs: "MAC e = MAC (merge_row d e)" "Vendor e = Vendor (merge_row d e)" "Type e = Type (merge_row d e)"
    "Hostname e = Hostname (merge_row d e)" "Status e = Status (merge_row d e)" "SysInfo e = SysInfo (merge_row d e)"
    by simp_all
  have "VendorUnset (Vendor e) \<longrightarrow> VendorUnset (Vendor d)" "Type e = TypeUnknown \<longrightarrow> Type d \<noteq> TypeNetwork"
    "MAC e = [] \<longrightarrow> MAC d = []" "Type e = [] \<longrightarrow> Type d = []" "Hostname e = [] \<longrightarrow> Hostname d = []"
    "Status e = [] \<longrightarrow> Status d = []" "Status d = StatusUp \<longrightarrow> Status e = StatusUp"
    using eqs unfolding merge_row_fields by (metis type_consts_distinct)+
  then show ?R
    using eqs(6) unfolding merge_row_fields by simp
next
  assume ?R
  then show ?L
    by (intro device_eqI) (simp_all add: merge_row_fields, blast)
qed

text \<open>The information order on rows: what is filled in stays, up to the two upgrades.\<close>

definition row_le :: "device \<Rightarrow> device \<Rightarrow> bool" where
  "row_le e f \<longleftrightarrow>
     IP f = IP e \<and>
     (MAC e \<noteq> [] \<longrightarrow> MAC f = MAC e) \<and>
     (\<not> VendorUnset (Vendor e) \<longrightarrow> Vendor f = Vendor e) \<and>
     (Type e \<noteq> [] \<longrightarrow> Type f = Type e \<or> Type e = TypeUnknown \<and> Type f = TypeNetwork) \<and>
     (Hostname e \<noteq> [] \<longrightarrow> Hostname f = Hostname e) \<and>
     (Status e \<noteq> [] \<longrightarrow> Status f = Status e \<or> Status f = StatusUp) \<and>
     (Neighbors (SysInfo e) \<noteq> [] \<longrightarrow> Neighbors (SysInfo f) = Neighbors (SysInfo e)) \<and>
     (Interfaces (SysInfo e) \<noteq> [] \<longrightarrow> Interfaces (SysInfo f) = Interfaces (SysInfo e)) \<and>
     (\<not> Empty (SysInfo e) \<longrightarrow>
        (SysInfo f)\<lparr>Neighbors := [], Interfaces := []\<rparr> = (SysInfo e)\<lparr>Neighbors := [], Interfaces := []\<rparr>)"

lemma row_le_trans:
  assumes "row_le e f" "row_le f g"
  shows "row_le e g"
proof -
  have "\<not> Empty (SysInfo e) \<Longrightarrow> \<not> Empty (SysInfo f)"
    using assms(1) Empty_fields[of "SysInfo e"] Empty_fields[of "SysInfo f"] unfolding row_le_def by metis
  moreover have "MAC e \<noteq> [] \<longrightarrow> MAC g = MAC e" "\<not> VendorUnset (Vendor e) \<longrightarrow> Vendor g = Vendor e"
    "Hostname e \<noteq> [] \<longrightarrow> Hostname g = Hostname e" "IP g = IP e"
    "Neighbors (SysInfo e) \<noteq> [] \<longrightarrow> Neighbors (SysInfo g) = Neighbors (SysInfo e)"
    "Interfaces (SysInfo e) \<noteq> [] \<longrightarrow> Interfaces (SysInfo g) = Interfaces (SysInfo e)"
    using assms unfolding row_le_def by simp_all
  moreover have "Type e \<noteq> [] \<longrightarrow> Type g = Type e \<or> Type e = TypeUnknown \<and> Type g = TypeNetwork"
    using assms type_consts_distinct unfolding row_le_def by metis
  moreover have "Status e \<noteq> [] \<longrightarrow> Status g = Status e \<or> Status g = StatusUp"
    using assms type_consts_distinct unfolding row_le_def by metis
  ultimately show ?thesis
    using assms unfolding row_le_def by simp
qed

interpretation row: filling merge_row row_le
proof unfold_locales
  show "merge_row d (merge_row d e) = merge_row d e" for d e
    unfolding merge_row_absorb by (auto simp: merge_simps merge_info_absorb)
  show "merge_row x (merge_row d e) = merge_row d e" if "merge_row x e = e" for x d e
    using that unfolding merge_row_absorb merge_row_fields merge_info_absorb merge_info_fields Empty_merge_info
    by (elim conjE, intro conjI) (metis type_consts_distinct)+
  show "row_le e e" for e
    by (simp add: row_le_def)
  show "row_le e g" if "row_le e f" "row_le f g" for e f g
    using that by (rule row_le_trans)
  show "row_le e (merge_row d e)" for d e
    by (auto simp: row_le_def merge_simps)
qed

subsection \<open>The merge map\<close>

definition hit_key :: "device \<Rightarrow> string" where
  "hit_key d = ip_string (device_addr d)"

text \<open>The merge map is well formed: one row per address, under the printed address.\<close>

definition merged_ok :: "(string, device) gomap \<Rightarrow> bool" where
  "merged_ok m \<longleftrightarrow>
     distinct_keys m \<and>
     (\<forall>(k, d) \<in> set m. device_addr d = IP d \<and> IP d \<noteq> [] \<and> k = ip_string (IP d))"

lemma device_addr_idem [simp]:
  "device_addr (d\<lparr>IP := device_addr e\<rparr>) = device_addr e" "device_addr (merge_row d e) = device_addr e"
  by (simp_all add: device_addr_def Let_def merge_simps)

lemma mergeDevice_eq:
  "mergeDevice m d =
     (if device_addr d = [] then m
      else map_put (hit_key d)
             (case map_get m (hit_key d) of None \<Rightarrow> d\<lparr>IP := device_addr d\<rparr> | Some e \<Rightarrow> merge_row d e) m)"
  by (simp add: mergeDevice_def hit_key_def Let_def split: option.splits)

lemma merge_first: "merge_row d (d\<lparr>IP := x\<rparr>) = d\<lparr>IP := x\<rparr>"
  unfolding merge_row_absorb merge_info_absorb by simp

lemma mergeDevice_absorb:
  "mergeDevice m d = m \<longleftrightarrow>
     device_addr d = [] \<or> (\<exists>e. map_get m (hit_key d) = Some e \<and> merge_row d e = e)"
  (is "?L \<longleftrightarrow> ?R")
proof
  assume l: ?L
  show ?R
  proof (cases "device_addr d = []")
    case False
    then have "map_get m (hit_key d) =
        Some (case map_get m (hit_key d) of None \<Rightarrow> d\<lparr>IP := device_addr d\<rparr> | Some e \<Rightarrow> merge_row d e)"
      using l map_get_put[of "hit_key d" _ m "hit_key d"] unfolding mergeDevice_eq by metis
    then show ?thesis
      by (auto split: option.splits)
  qed simp
next
  assume ?R
  then show ?L
    by (auto simp: mergeDevice_eq map_put_same)
qed

definition rows_le :: "(string, device) gomap \<Rightarrow> (string, device) gomap \<Rightarrow> bool" where
  "rows_le m n \<longleftrightarrow> (\<forall>k e. map_get m k = Some e \<longrightarrow> (\<exists>f. map_get n k = Some f \<and> row_le e f))"

interpretation rows: filling "\<lambda>d m. mergeDevice m d" rows_le
proof unfold_locales
  show "mergeDevice (mergeDevice m d) d = mergeDevice m d" for d m
    unfolding mergeDevice_absorb
    by (auto simp: mergeDevice_eq map_get_put row.merge_idem merge_first split: option.splits)
  show "mergeDevice (mergeDevice m d) x = mergeDevice m d" if "mergeDevice m x = m" for x d m
    using that unfolding mergeDevice_absorb
    by (auto simp: mergeDevice_eq map_get_put row.merge_keeps)
  show "rows_le m m" for m
    by (simp add: rows_le_def row.le_refl)
  show "rows_le m o'" if "rows_le m n" "rows_le n o'" for m n o'
    using that unfolding rows_le_def by (meson row.le_trans)
  show "rows_le m (mergeDevice m d)" for m d
    by (auto simp: rows_le_def mergeDevice_eq map_get_put row.le_merge row.le_refl)
qed

lemma mergeDevice_ok: "merged_ok m \<Longrightarrow> merged_ok (mergeDevice m d)"
  unfolding merged_ok_def mergeDevice_eq
  by (auto simp: hit_key_def merge_simps dest!: subsetD[OF set_put_subset] map_of_SomeD split: option.splits)

lemma merges_ok: "merged_ok m \<Longrightarrow> merged_ok (foldl mergeDevice m ds)"
  by (induction ds arbitrary: m) (simp_all add: mergeDevice_ok)

lemma merged_ok_Nil [simp]: "merged_ok []"
  by (simp add: merged_ok_def)

text \<open>
  Specification of a row: every field is the first value that counts as set among the reports for
  its address, in the order of the stages; \<open>up\<close> wins over any other status, and the type
  \<open>Network device\<close> over \<open>Unknown\<close>.
\<close>

definition merged_type :: "string list \<Rightarrow> string" where
  "merged_type ts =
     (let t = first_set (\<lambda>t. t \<noteq> []) [] ts
      in if t = TypeUnknown \<and> TypeNetwork \<in> set ts then TypeNetwork else t)"

definition merged_info :: "sys_info list \<Rightarrow> sys_info" where
  "merged_info is =
     (first_set (\<lambda>i. \<not> Empty i) zero_info is)
       \<lparr>Neighbors := first_set (\<lambda>n. n \<noteq> []) [] (map Neighbors is),
        Interfaces := first_set (\<lambda>n. n \<noteq> []) [] (map Interfaces is)\<rparr>"

definition merged_row :: "device list \<Rightarrow> device" where
  "merged_row ds =
     \<lparr>IP = device_addr (hd ds),
      MAC = first_set (\<lambda>m. m \<noteq> []) [] (map MAC ds),
      Vendor = first_set (\<lambda>v. \<not> VendorUnset v) (Vendor (hd ds)) (map Vendor ds),
      Hostname = first_set (\<lambda>h. h \<noteq> []) [] (map Hostname ds),
      Status = (if StatusUp \<in> Status ` set ds then StatusUp else first_set (\<lambda>s. s \<noteq> []) [] (map Status ds)),
      Type = merged_type (map Type ds),
      SysInfo = merged_info (map SysInfo ds)\<rparr>"

lemma merged_type_snoc:
  "merged_type (ts @ [t]) =
     (if merged_type ts = [] \<or> merged_type ts = TypeUnknown \<and> t = TypeNetwork then t else merged_type ts)"
proof (cases "\<exists>t \<in> set ts. t \<noteq> []")
  case True
  then show ?thesis
    using first_set_ok[OF True, of "[]"] by (auto simp: merged_type_def Let_def first_set_append)
next
  case False
  then have "TypeNetwork \<notin> set ts"
    using type_consts_distinct by blast
  then show ?thesis
    using False by (auto simp: merged_type_def Let_def first_set_append first_set_none)
qed

lemma merged_info_lists:
  "Neighbors (merged_info is) = first_set (\<lambda>n. n \<noteq> []) [] (map Neighbors is)"
  "Interfaces (merged_info is) = first_set (\<lambda>n. n \<noteq> []) [] (map Interfaces is)"
  by (simp_all add: merged_info_def)

lemma merged_info_scalars:
  "(merged_info is)\<lparr>Neighbors := [], Interfaces := []\<rparr> =
   (first_set (\<lambda>i. \<not> Empty i) zero_info is)\<lparr>Neighbors := [], Interfaces := []\<rparr>"
  by (simp add: merged_info_def)

lemma first_set_filled:
  "first_set (\<lambda>s. s \<noteq> []) [] (xs @ [x]) =
     (if first_set (\<lambda>s. s \<noteq> []) [] xs = [] then x else first_set (\<lambda>s. s \<noteq> []) [] xs)"
  using first_set_snoc[of "\<lambda>s. s \<noteq> []" "[]" xs x] by simp

lemma Empty_merged_info: "Empty (merged_info is) \<longleftrightarrow> (\<forall>i \<in> set is. Empty i)"
proof (cases "\<exists>i \<in> set is. \<not> Empty i")
  case True
  let ?f = "first_set (\<lambda>i. \<not> Empty i) zero_info is"
  have f: "\<not> Empty ?f" "?f \<in> set is"
    using first_set_ok[OF True] by blast+
  have "Neighbors (merged_info is) \<noteq> []" if "Neighbors ?f \<noteq> []"
    unfolding merged_info_lists using that f(2) by (subst first_set_ok_iff) auto
  moreover have "Interfaces (merged_info is) \<noteq> []" if "Interfaces ?f \<noteq> []"
    unfolding merged_info_lists using that f(2) by (subst first_set_ok_iff) auto
  ultimately have "\<not> Empty (merged_info is)"
    using f(1) Empty_fields[of ?f] Empty_fields[of "merged_info is"] merged_info_scalars[of "is"] by metis
  then show ?thesis
    using True by blast
next
  case False
  then have "merged_info is = zero_info\<lparr>Neighbors := [], Interfaces := []\<rparr>"
    by (auto simp: merged_info_def first_set_none)
  then show ?thesis
    using False by (auto simp: Empty_iff zero_info_def)
qed

lemma first_set_info_one: "first_set (\<lambda>i. \<not> Empty i) zero_info [i] = i"
  using Empty_iff[of i] by (metis first_set_simps)

lemma merged_info_snoc: "merged_info (is @ [i]) = merge_info i (merged_info is)"
proof (rule sys_info_eqI)
  show "(merged_info (is @ [i]))\<lparr>Neighbors := [], Interfaces := []\<rparr> =
      (merge_info i (merged_info is))\<lparr>Neighbors := [], Interfaces := []\<rparr>"
  proof (cases "\<exists>j \<in> set is. \<not> Empty j")
    case True
    then show ?thesis
      unfolding merge_info_scalars Empty_merged_info merged_info_scalars first_set_append
      by (auto simp: merged_info_scalars)
  next
    case False
    then have "Empty (merged_info is)"
      by (simp add: Empty_merged_info)
    then show ?thesis
      using False
      unfolding merge_info_scalars merged_info_scalars first_set_append first_set_info_one
      by (simp only: if_False if_True)
  qed
qed (simp_all add: merge_info_fields merged_info_lists first_set_filled)

lemma merged_info_one: "merged_info [i] = i"
proof (rule sys_info_eqI)
  show "(merged_info [i])\<lparr>Neighbors := [], Interfaces := []\<rparr> = i\<lparr>Neighbors := [], Interfaces := []\<rparr>"
    by (simp only: merged_info_scalars first_set_info_one)
qed (simp_all add: merged_info_lists)

lemma merged_row_fields:
  "IP (merged_row ds) = device_addr (hd ds)"
  "MAC (merged_row ds) = first_set (\<lambda>m. m \<noteq> []) [] (map MAC ds)"
  "Vendor (merged_row ds) = first_set (\<lambda>v. \<not> VendorUnset v) (Vendor (hd ds)) (map Vendor ds)"
  "Hostname (merged_row ds) = first_set (\<lambda>h. h \<noteq> []) [] (map Hostname ds)"
  "Status (merged_row ds) =
     (if StatusUp \<in> set (map Status ds) then StatusUp else first_set (\<lambda>s. s \<noteq> []) [] (map Status ds))"
  "Type (merged_row ds) = merged_type (map Type ds)"
  "SysInfo (merged_row ds) = merged_info (map SysInfo ds)"
  by (simp_all add: merged_row_def)

lemma merged_row_one: "merged_row [d] = d\<lparr>IP := device_addr d\<rparr>"
  by (intro device_eqI) (simp_all add: merged_row_fields merged_info_one merged_type_def Let_def)

lemma merged_row_snoc:
  assumes "ds \<noteq> []"
  shows "merged_row (ds @ [d]) = merge_row d (merged_row ds)"
proof (rule device_eqI)
  have hd: "Vendor (hd ds) \<in> set (map Vendor ds)"
    using assms by simp
  show "Vendor (merged_row (ds @ [d])) = Vendor (merge_row d (merged_row ds))"
    unfolding merge_row_fields merged_row_fields map_append list.map hd_append2[OF assms]
    by (subst first_set_snoc) (use hd in auto)
  show "Status (merged_row (ds @ [d])) = Status (merge_row d (merged_row ds))"
    unfolding merge_row_fields merged_row_fields
    by (simp add: first_set_filled)
qed (simp_all add: merge_row_fields merged_row_fields first_set_filled merged_type_snoc merged_info_snoc assms)

definition hits_at :: "string \<Rightarrow> device list \<Rightarrow> device list" where
  "hits_at k ds = filter (\<lambda>d. device_addr d \<noteq> [] \<and> hit_key d = k) ds"

lemma merged_rows:
  "map_get (foldl mergeDevice [] ds) k =
     (if hits_at k ds = [] then None else Some (merged_row (hits_at k ds)))"
proof (induction ds rule: rev_induct)
  case Nil
  then show ?case
    by (simp add: hits_at_def)
next
  case (snoc d ds)
  have "hits_at k (ds @ [d]) =
      (if device_addr d \<noteq> [] \<and> hit_key d = k then hits_at k ds @ [d] else hits_at k ds)"
    by (simp add: hits_at_def)
  then show ?case
    using snoc by (auto simp: mergeDevice_eq map_get_put merged_row_one merged_row_snoc)
qed

lemma toSlice_map:
  assumes "map_order iter"
  shows "mset (toSlice iter m) = image_mset (\<lambda>(k, d). finish_row d) (mset m)"
proof -
  have "mset (toSlice iter m) = image_mset (\<lambda>(k, d). finish_row d) (mset (iter m))"
    using map_order_length[OF assms, of m] by (auto simp: toSlice_def)
  then show ?thesis
    using assms by (simp add: map_order_def)
qed

lemma toSlice_set:
  "map_order iter \<Longrightarrow> merged_ok m \<Longrightarrow>
   set (toSlice iter m) = {finish_row d |d k. map_get m k = Some d}"
  using toSlice_map[of iter m, THEN arg_cong[where f = set_mset]]
  by (auto simp: merged_ok_def map_get_Some_iff image_iff)

lemma finish_row_fields [simp]:
  "IP (finish_row d) = IP d" "MAC (finish_row d) = MAC d" "Vendor (finish_row d) = Vendor d"
  "Hostname (finish_row d) = Hostname d" "SysInfo (finish_row d) = SysInfo d"
  "Status (finish_row d) = (if Status d = [] then StatusUp else Status d)"
  "Type (finish_row d) = (if Type d = [] then TypeUnknown else Type d)"
  by (simp_all add: finish_row_def Let_def)

subsection \<open>Running the stages\<close>

text \<open>Specification of a run without the map: the hits of the stages that succeeded, in order, the
  error that stopped the run and the world it ended in.\<close>

fun stage_hits ::
  "('w \<Rightarrow> bool) \<Rightarrow> 'w request \<Rightarrow> 'w pmethod list \<Rightarrow> 'w \<Rightarrow> (device list \<times> string option) \<times> 'w" where
  "stage_hits ctx_err req [] w = (([], None), w)"
| "stage_hits ctx_err req (m # ms) w =
     (if ctx_err w then (([], None), w)
      else case m_Run m req w of
        ((devs, Some err), w1) \<Rightarrow>
          if m_SoftFail m
          then stage_hits ctx_err req ms (case req_Warn req of Some warn \<Rightarrow> warn (m_Name m) err w1 | None \<Rightarrow> w1)
          else (([], Some err), w1)
      | ((devs, None), w1) \<Rightarrow>
          (let ((hs, r), w2) = stage_hits ctx_err req ms w1 in ((devs @ hs, r), w2)))"

lemma run_stages_hits:
  "run_stages iter ctx_err req ms m w =
     (let ((hs, r), w') = stage_hits ctx_err req ms w in ((toSlice iter (foldl mergeDevice m hs), r), w'))"
  by (induction ms arbitrary: m w) (auto simp: Let_def split: prod.splits option.splits)

lemma pipeline_Run_hits:
  "pipeline_Run iter ctx_err (Some ms) req w =
     (let ((hs, r), w') = stage_hits ctx_err req ms w in ((toSlice iter (foldl mergeDevice [] hs), r), w'))"
  by (cases ms) (simp_all add: pipeline_Run_def run_stages_hits toSlice_def)

lemma stage_hits_fatal:
  assumes "stage_hits ctx_err req ms w = ((hs, Some e), w')"
  shows "\<exists>ms1 m ms2 w1 devs. ms = ms1 @ m # ms2 \<and> \<not> m_SoftFail m \<and> \<not> ctx_err w1 \<and>
    m_Run m req w1 = ((devs, Some e), w') \<and> stage_hits ctx_err req ms1 w = ((hs, None), w1)"
  using assms
proof (induction ms arbitrary: w hs)
  case Nil
  then show ?case by simp
next
  case (Cons m ms)
  obtain devs r w1 where run: "m_Run m req w = ((devs, r), w1)"
    by (metis surj_pair)
  have alive: "\<not> ctx_err w"
    using Cons.prems by (auto split: if_splits)
  consider (ok) "r = None" | (soft) e' where "r = Some e'" "m_SoftFail m" | (hard) e' where "r = Some e'" "\<not> m_SoftFail m"
    by blast
  then show ?case
  proof cases
    case ok
    then obtain hs1 where hs1: "stage_hits ctx_err req ms w1 = ((hs1, Some e), w')" "hs = devs @ hs1"
      using Cons.prems run alive by (auto simp: Let_def split: prod.splits)
    from Cons.IH[OF hs1(1)] obtain ms1 m' ms2 w2 devs' where
      "ms = ms1 @ m' # ms2" "\<not> m_SoftFail m'" "\<not> ctx_err w2" "m_Run m' req w2 = ((devs', Some e), w')"
      "stage_hits ctx_err req ms1 w1 = ((hs1, None), w2)"
      by blast
    then show ?thesis
      using run alive ok hs1(2) by (intro exI[of _ "m # ms1"]) auto
  next
    case soft
    let ?w = "case req_Warn req of Some warn \<Rightarrow> warn (m_Name m) e' w1 | None \<Rightarrow> w1"
    have "stage_hits ctx_err req ms ?w = ((hs, Some e), w')"
      using Cons.prems run alive soft by simp
    from Cons.IH[OF this] obtain ms1 m' ms2 w2 devs' where
      "ms = ms1 @ m' # ms2" "\<not> m_SoftFail m'" "\<not> ctx_err w2" "m_Run m' req w2 = ((devs', Some e), w')"
      "stage_hits ctx_err req ms1 ?w = ((hs, None), w2)"
      by blast
    then show ?thesis
      using run alive soft by (intro exI[of _ "m # ms1"]) auto
  next
    case hard
    then show ?thesis
      using Cons.prems run alive by (intro exI[of _ "[]"]) auto
  qed
qed

lemma finish_row_key: "device_addr (finish_row d) = device_addr d"
  by (simp add: device_addr_def Let_def)

lemma toSlice_distinct:
  assumes "map_order iter" "merged_ok m"
  shows "distinct (map (\<lambda>d. ip_string (IP d)) (toSlice iter m))"
proof -
  have "mset (map (\<lambda>d. ip_string (IP d)) (toSlice iter m)) =
      image_mset (\<lambda>(k, d). ip_string (IP d)) (mset m)"
    by (simp add: toSlice_map[OF assms(1)] image_mset.compositionality comp_def case_prod_unfold)
  also have "\<dots> = mset (map fst m)"
    using assms(2) by (auto simp: merged_ok_def intro!: image_mset_cong)
  finally show ?thesis
    using assms(2) unfolding merged_ok_def distinct_keys_def by (metis mset_eq_imp_distinct_iff)
qed

lemma hits_at_IP: "d \<in> set (hits_at k hits) \<Longrightarrow> d \<in> set hits \<and> device_addr d \<noteq> [] \<and> hit_key d = k"
  by (simp add: hits_at_def)

lemma toSlice_rows:
  assumes "map_order iter"
  shows "set (toSlice iter (foldl mergeDevice [] hs)) =
    {finish_row (merged_row (hits_at k hs)) |k. hits_at k hs \<noteq> []}"
  unfolding toSlice_set[OF assms merges_ok[OF merged_ok_Nil]] merged_rows by auto

text \<open>
  Interface: what the pipeline needs of the stages it is given, that each of their hits satisfies
  \<open>ok\<close>.  Then every row comes from such hits only.
\<close>

locale stages =
  fixes ok :: "'w request \<Rightarrow> device \<Rightarrow> bool" and ms :: "'w pmethod list"
  assumes hits_ok: "m \<in> set ms \<Longrightarrow> m_Run m req w = ((devs, r), w') \<Longrightarrow> d \<in> set devs \<Longrightarrow> ok req d"
begin

lemma stage_hits_ok:
  "set ms' \<subseteq> set ms \<Longrightarrow> stage_hits ctx_err req ms' w = ((hs, r), w') \<Longrightarrow> d \<in> set hs \<Longrightarrow> ok req d"
proof (induction ms' arbitrary: w hs)
  case Nil
  then show ?case by simp
next
  case (Cons m ms')
  obtain devs e w1 where run: "m_Run m req w = ((devs, e), w1)"
    by (metis surj_pair)
  have "\<And>d. d \<in> set devs \<Longrightarrow> ok req d"
    using Cons.prems(1) run by (auto intro: hits_ok)
  then show ?case
    using Cons run
    by (auto simp: Let_def split: if_splits option.splits prod.splits)
qed

lemma rows_ok:
  assumes "map_order iter" "pipeline_Run iter ctx_err (Some ms) req w = ((rows, r), w')" "row \<in> set rows"
  shows "\<exists>ds. ds \<noteq> [] \<and> row = finish_row (merged_row ds) \<and>
    (\<forall>d \<in> set ds. ok req d \<and> hit_key d = ip_string (IP row))"
proof -
  obtain hs r0 w0 where h: "stage_hits ctx_err req ms w = ((hs, r0), w0)"
    by (metis surj_pair)
  then have "rows = toSlice iter (foldl mergeDevice [] hs)"
    using assms(2) by (simp add: pipeline_Run_hits)
  then obtain k where k: "hits_at k hs \<noteq> []" "row = finish_row (merged_row (hits_at k hs))"
    using assms(3) toSlice_rows[OF assms(1), of hs] by auto
  have "hit_key (hd (hits_at k hs)) = k"
    using k(1) hits_at_IP by (metis hd_in_set)
  then have "ip_string (IP row) = k"
    using k(2) by (simp add: merged_row_fields hit_key_def)
  moreover have "ok req d \<and> hit_key d = k" if "d \<in> set (hits_at k hs)" for d
    using hits_at_IP[OF that] stage_hits_ok[OF subset_refl h] by blast
  ultimately show ?thesis
    using k by blast
qed

end

lemma pipeline_Run_distinct:
  assumes "map_order iter" "pipeline_Run iter ctx_err (Some ms) req w = ((rows, r), w')"
  shows "distinct (map (\<lambda>d. ip_string (IP d)) rows)"
proof -
  obtain hs r0 w0 where "stage_hits ctx_err req ms w = ((hs, r0), w0)"
    by (metis surj_pair)
  then have "rows = toSlice iter (foldl mergeDevice [] hs)"
    using assms(2) by (simp add: pipeline_Run_hits)
  then show ?thesis
    using toSlice_distinct[OF assms(1) merges_ok[OF merged_ok_Nil]] by simp
qed

subsection \<open>Properties\<close>

definition demo_icmp :: device where
  "demo_icmp = zero_device\<lparr>IP := v4in6_prefix @ [192, 168, 7, 9], Status := StatusUp\<rparr>"

definition demo_arp :: device where
  "demo_arp = zero_device\<lparr>IP := [192, 168, 7, 9], MAC := [0, 27, 84, 1, 2, 3], Vendor := ''Cisco'',
     Type := TypeNetwork, Status := StatusUp\<rparr>"

definition demo_stage :: "string \<Rightarrow> bool \<Rightarrow> device list \<Rightarrow> string option \<Rightarrow> string list pmethod" where
  "demo_stage name soft devs e = \<lparr>m_Name = name, m_SoftFail = soft, m_Run = (\<lambda>req w. ((devs, e), w @ [name]))\<rparr>"

definition demo_request :: "string list request" where
  "demo_request = \<lparr>req_Iface = ln_interface demo_net, req_SrcIP = ln_ip demo_net,
     req_Targets = [[192, 168, 7, 9]], req_Workers = 4, req_Timeout = 0, req_Progress = None,
     req_Warn = Some (\<lambda>m e w. w @ [m @ '': '' @ e])\<rparr>"

text \<open>C2.  What the pipeline returns: the reports of the stages that succeeded before the run stopped,
  grouped by address, one row per address, every field of it the first set value in the order of
  the stages (\<open>up\<close> and \<open>Network device\<close> win over the placeholders), blank status and type
  filled in.\<close>

theorem pipeline_rows:
  assumes "map_order iter" "pipeline_Run iter ctx_err (Some ms) req w = ((rows, err), w')"
  shows "\<exists>hits. stage_hits ctx_err req ms w = ((hits, err), w') \<and>
    distinct (map (\<lambda>d. ip_string (IP d)) rows) \<and>
    set rows = {finish_row (merged_row (hits_at k hits)) |k. hits_at k hits \<noteq> []}"
proof -
  obtain hits e w1 where h: "stage_hits ctx_err req ms w = ((hits, e), w1)"
    by (metis surj_pair)
  then have "rows = toSlice iter (foldl mergeDevice [] hits)" "e = err" "w1 = w'"
    using assms(2) by (simp_all add: pipeline_Run_hits)
  then show ?thesis
    using h toSlice_rows[OF assms(1), of hits] toSlice_distinct[OF assms(1) merges_ok[OF merged_ok_Nil], of hits]
    by simp
qed

definition demo_stages :: "string list pmethod list" where
  "demo_stages =
    [demo_stage ''ICMP'' True [] (Some ''no socket''), demo_stage ''PING'' True [demo_icmp] None,
     demo_stage ''ARP'' False [demo_arp] None]"

lemma demo_run:
  "pipeline_Run (\<lambda>m. m) (\<lambda>w. False) (Some demo_stages) demo_request [] =
   (([demo_arp], None), [''ICMP'', ''ICMP: no socket'', ''PING'', ''ARP''])"
  by code_simp

theorem pipeline_rows_witness:
  "\<exists>hits. stage_hits (\<lambda>w. False) demo_request demo_stages [] =
      ((hits, None), [''ICMP'', ''ICMP: no socket'', ''PING'', ''ARP'']) \<and>
    {demo_arp} = {finish_row (merged_row (hits_at k hits)) |k. hits_at k hits \<noteq> []}"
  using pipeline_rows[OF map_order_id demo_run] by auto

text \<open>C21.  A filled field is never lost: whatever is merged later, a row keeps its address, MAC,
  hostname, neighbour and interface tables and a set vendor; its type changes at most from
  \<open>Unknown\<close> to \<open>Network device\<close>, its status at most to \<open>up\<close>.\<close>

theorem merge_never_loses: "rows_le m (foldl mergeDevice m ds)"
  using rows.merges_le[of m ds] by (simp add: rows.merges_def)

text \<open>Merging is idempotent: reports already merged, in any order and number, change nothing.\<close>

lemma merge_again:
  assumes "set ds' \<subseteq> set ds"
  shows "foldl mergeDevice (foldl mergeDevice m ds) ds' = foldl mergeDevice m ds"
  using rows.merges_again[OF assms, of m] by (simp add: rows.merges_def)

text \<open>C10.  A run that returns an error: the error is that of a method that does not fail softly, which
  is the last one that ran, the context was still alive then, and the rows are those of the
  methods before it.\<close>

theorem pipeline_fatal:
  assumes "pipeline_Run iter ctx_err (Some ms) req w = ((rows, Some e), w')"
  shows "\<exists>ms1 m ms2 w1 devs. ms = ms1 @ m # ms2 \<and> \<not> m_SoftFail m \<and> \<not> ctx_err w1 \<and>
    m_Run m req w1 = ((devs, Some e), w') \<and>
    pipeline_Run iter ctx_err (Some ms1) req w = ((rows, None), w1)"
proof -
  obtain hs where hs: "stage_hits ctx_err req ms w = ((hs, Some e), w')" "rows = toSlice iter (foldl mergeDevice [] hs)"
    using assms by (auto simp: pipeline_Run_hits Let_def split: prod.splits)
  from stage_hits_fatal[OF hs(1)] show ?thesis
    unfolding pipeline_Run_hits hs(2) by fastforce
qed

lemma demo_fatal_run:
  "pipeline_Run (\<lambda>m. m) (\<lambda>w. False)
     (Some [demo_stage ''ICMP'' True [demo_icmp] None, demo_stage ''ARP'' False [demo_arp] (Some ''pcap''),
            demo_stage ''SSH'' True [] None]) demo_request [] =
   (([demo_icmp\<lparr>IP := [192, 168, 7, 9], Type := TypeUnknown\<rparr>], Some ''pcap''), [''ICMP'', ''ARP''])"
  by code_simp

theorem pipeline_fatal_witness:
  "\<exists>ms1 m ms2. [demo_stage ''ICMP'' True [demo_icmp] None, demo_stage ''ARP'' False [demo_arp] (Some ''pcap''),
      demo_stage ''SSH'' True [] None] = ms1 @ m # ms2 \<and> \<not> m_SoftFail m"
  using pipeline_fatal[OF demo_fatal_run] by blast



end
