(* ===== verification/Icmpping.thy ===== *)
theory Icmpping
  imports Pipeline
begin

text \<open>
  \<open>internal/icmpping/icmpping.go\<close>: the sequential parts of the ICMP stage, that is the defaults of
  \<open>Run\<close>, the socket, the recognition of a reply and the tracker.  The goroutines are the step
  relation of the theory \<open>IcmpPool\<close>.  The ICMP library is a parameter: \<open>parse\<close> stands for
  \<open>icmp.ParseMessage\<close> on protocol 1, \<open>marshal\<close> for \<open>Message.Marshal\<close> and \<open>listen_packet\<close> for
  \<open>icmp.ListenPacket\<close>, which answers with an error text or nothing.
\<close>

subsection \<open>Addresses and messages\<close>

datatype net_addr = NilAddr | IPAddr ip | UDPAddr ip | OtherNetAddr string

definition addrIP :: "net_addr \<Rightarrow> ip" where
  "addrIP a =
     (case a of
        NilAddr \<Rightarrow> []
      | IPAddr ip \<Rightarrow> to4 ip
      | UDPAddr ip \<Rightarrow> to4 ip
      | OtherNetAddr s \<Rightarrow>
          (case split_host s of
             None \<Rightarrow> to4 (parse_ip s)
           | Some host \<Rightarrow> to4 (parse_ip host)))"

datatype icmp_body = EchoBody int int "byte list" | OtherBody

record icmp_message =
  msg_Type :: int
  msg_Code :: int
  msg_Body :: icmp_body

definition ICMPTypeEcho :: int where "ICMPTypeEcho = 8"
definition ICMPTypeEchoReply :: int where "ICMPTypeEchoReply = 0"

definition DefaultAttempts :: int where "DefaultAttempts = 3"
definition echoPayload :: string where "echoPayload = ''network-scanner''"

definition isOurEchoReply :: "(byte list \<Rightarrow> icmp_message option) \<Rightarrow> byte list \<Rightarrow> int \<Rightarrow> bool" where
  "isOurEchoReply parse b echoID =
     (case parse b of
        None \<Rightarrow> False
      | Some msg \<Rightarrow>
          if msg_Type msg \<noteq> ICMPTypeEchoReply then False
          else (case msg_Body msg of
                 OtherBody \<Rightarrow> False
               | EchoBody ident seq data \<Rightarrow> if ident \<noteq> echoID \<and> ident \<noteq> 0 then False else True))"

definition encodeEcho :: "(icmp_message \<Rightarrow> byte list option) \<Rightarrow> int \<Rightarrow> int \<Rightarrow> byte list option" where
  "encodeEcho marshal ident seq =
     marshal \<lparr>msg_Type = ICMPTypeEcho, msg_Code = 0,
              msg_Body = EchoBody ident seq (map (\<lambda>c. of_nat (of_char c)) echoPayload)\<rparr>"

subsection \<open>The socket\<close>

text \<open>\<open>addrConn\<close>: the flag tells the datagram fallback from the raw socket.\<close>

definition listenICMP ::
  "(string \<Rightarrow> string \<Rightarrow> 'w \<Rightarrow> string option \<times> 'w) \<Rightarrow> ip \<Rightarrow> 'w \<Rightarrow> (string + bool) \<times> 'w" where
  "listenICMP listen_packet srcIP w =
     (let addr = (let ip4 = to4 srcIP in if ip4 \<noteq> [] then ip_string ip4 else ''0.0.0.0'');
          (err, w1) = listen_packet ''ip4:icmp'' addr w
      in case err of
           None \<Rightarrow> (Inr False, w1)
         | Some e \<Rightarrow>
             (let (err2, w2) = listen_packet ''udp4'' ''0.0.0.0'' w1
              in case err2 of
                   Some _ \<Rightarrow> (Inl (''icmp listen: '' @ e), w2)
                 | None \<Rightarrow> (Inr True, w2)))"

definition addrConn_WriteTo :: "bool \<Rightarrow> net_addr \<Rightarrow> net_addr" where
  "addrConn_WriteTo udp dst = (let ip = addrIP dst in if udp then UDPAddr ip else IPAddr ip)"

subsection \<open>The tracker\<close>

text \<open>
  A channel is a number; \<open>made\<close> is the number of the next one and \<open>shut\<close> the closed ones.
  \<open>live\<close> and \<open>wait\<close> are the two maps.  Closing a closed channel would be a panic, so that the
  operations return \<open>None\<close> then.
\<close>

record tracker =
  live :: "(string, unit) gomap"
  wait :: "(string, nat) gomap"
  made :: nat
  shut :: "nat list"

definition newTracker :: tracker where
  "newTracker = \<lparr>live = [], wait = [], made = 0, shut = []\<rparr>"

definition close_chan :: "nat \<Rightarrow> tracker \<Rightarrow> tracker option" where
  "close_chan ch t = (if ch \<in> set (shut t) then None else Some (t\<lparr>shut := ch # shut t\<rparr>))"

definition make_chan :: "tracker \<Rightarrow> nat \<times> tracker" where
  "make_chan t = (made t, t\<lparr>made := Suc (made t)\<rparr>)"

definition gotReply :: "string \<Rightarrow> tracker \<Rightarrow> tracker option" where
  "gotReply ip t =
     (let t = t\<lparr>live := map_put ip () (live t)\<rparr>
      in case map_get (wait t) ip of
           None \<Rightarrow> Some t
         | Some ch \<Rightarrow> if ch \<in> set (shut t) then Some t else close_chan ch t)"

definition waiter :: "string \<Rightarrow> tracker \<Rightarrow> (nat \<times> tracker) option" where
  "waiter ip t =
     (if map_get (live t) ip \<noteq> None then
        let (ch, t1) = make_chan t
        in (case close_chan ch t1 of None \<Rightarrow> None | Some t2 \<Rightarrow> Some (ch, t2))
      else case map_get (wait t) ip of
             Some ch \<Rightarrow> Some (ch, t)
           | None \<Rightarrow>
               (let (ch, t1) = make_chan t
                in Some (ch, t1\<lparr>wait := map_put ip ch (wait t1)\<rparr>)))"

definition replied :: "string \<Rightarrow> tracker \<Rightarrow> bool" where
  "replied ip t \<longleftrightarrow> map_get (live t) ip \<noteq> None"

definition liveIPs ::
  "((string, unit) gomap \<Rightarrow> (string, unit) gomap) \<Rightarrow> tracker \<Rightarrow> string list" where
  "liveIPs iter t = map fst (iter (live t))"

subsection \<open>One turn of the reader\<close>

text \<open>The key that a message marks live, if any.\<close>

definition reply_key ::
  "(byte list \<Rightarrow> icmp_message option) \<Rightarrow> int \<Rightarrow> string list \<Rightarrow> byte list \<Rightarrow> net_addr \<Rightarrow> string option" where
  "reply_key parse echoID wanted b peer =
     (let ip = addrIP peer in
      if ip = [] then None
      else let key = ip_string ip in
        if key \<notin> set wanted then None
        else if \<not> isOurEchoReply parse b echoID then None
        else Some key)"

subsection \<open>The defaults of \<open>Run\<close>\<close>

definition run_attempts :: "int \<Rightarrow> int" where
  "run_attempts n = (if n \<le> 0 then DefaultAttempts else n)"

definition run_timeout :: "int \<Rightarrow> int" where
  "run_timeout d = (if d \<le> 0 then 750 * 1000000 else d)"

definition run_workers :: "int \<Rightarrow> ip list \<Rightarrow> int" where
  "run_workers n targets =
     (let workers = (if n \<le> 0 then 64 else n)
      in if workers > int (length targets) then int (length targets) else workers)"

text \<open>\<open>os.Getpid() & 0xffff\<close> on a non-negative process number.\<close>

definition run_echoID :: "int \<Rightarrow> nat \<Rightarrow> int" where
  "run_echoID echoID pid =
     (if echoID = 0
      then (let e = int pid AND 0xffff in if e = 0 then 1 else e)
      else echoID)"

fun wanted_keys :: "ip list \<Rightarrow> string list" where
  "wanted_keys [] = []"
| "wanted_keys (ip # ips) =
     (let ip4 = to4 ip in if ip4 = [] then wanted_keys ips else ip_string ip4 # wanted_keys ips)"

text \<open>The loop that turns the live keys into devices.\<close>

definition icmp_devices :: "string list \<Rightarrow> device list" where
  "icmp_devices keys =
     List.map_filter (\<lambda>ipStr. let ip = to4 (parse_ip ipStr) in
       if ip = [] then None else Some (zero_device\<lparr>IP := ip, Status := StatusUp\<rparr>)) keys"

subsection \<open>Facts about the tracker\<close>

text \<open>
  The invariant: channels are numbered below \<open>made\<close>, no two addresses share a channel, and the
  channel of an address is closed exactly when the address has answered.
\<close>

definition tracker_ok :: "tracker \<Rightarrow> bool" where
  "tracker_ok t \<longleftrightarrow>
     distinct_keys (live t) \<and>
     (\<forall>ch \<in> set (shut t). ch < made t) \<and>
     (\<forall>k ch. map_get (wait t) k = Some ch \<longrightarrow> ch < made t \<and> (ch \<in> set (shut t) \<longleftrightarrow> replied k t)) \<and>
     (\<forall>k l ch. map_get (wait t) k = Some ch \<longrightarrow> map_get (wait t) l = Some ch \<longrightarrow> k = l)"

text \<open>A channel handed out for a key: it is the one in the map, or one made closed.\<close>

definition chan_of :: "string \<Rightarrow> nat \<Rightarrow> tracker \<Rightarrow> bool" where
  "chan_of k ch t \<longleftrightarrow> map_get (wait t) k = Some ch \<or> replied k t \<and> ch \<in> set (shut t)"

lemma newTracker_ok: "tracker_ok newTracker"
  by (simp add: tracker_ok_def newTracker_def)

lemma gotReply_ok:
  assumes "tracker_ok t"
  obtains t' where "gotReply k t = Some t'" "tracker_ok t'" "made t' = made t" "wait t' = wait t"
    "\<And>l. replied l t' \<longleftrightarrow> l = k \<or> replied l t" "\<And>l ch. chan_of l ch t \<Longrightarrow> chan_of l ch t'"
    "set (shut t) \<subseteq> set (shut t')"
proof (cases "map_get (wait t) k")
  case None
  let ?t = "t\<lparr>live := map_put k () (live t)\<rparr>"
  have "gotReply k t = Some ?t"
    using None by (simp add: gotReply_def)
  then show ?thesis
    by (rule that) (use assms None in \<open>auto simp: tracker_ok_def replied_def chan_of_def map_get_put\<close>)
next
  case (Some ch)
  show ?thesis
  proof (cases "ch \<in> set (shut t)")
    case True
    let ?t = "t\<lparr>live := map_put k () (live t)\<rparr>"
    have "gotReply k t = Some ?t"
      using Some True by (simp add: gotReply_def)
    then show ?thesis
      by (rule that) (use assms Some True in \<open>auto simp: tracker_ok_def replied_def chan_of_def map_get_put\<close>)
  next
    case False
    let ?t = "t\<lparr>live := map_put k () (live t), shut := ch # shut t\<rparr>"
    have "gotReply k t = Some ?t"
      using Some False by (simp add: gotReply_def close_chan_def)
    then show ?thesis
      by (rule that) (use assms Some False in \<open>auto simp: tracker_ok_def replied_def chan_of_def map_get_put\<close>)
  qed
qed

lemma waiter_ok:
  assumes "tracker_ok t"
  obtains ch t' where "waiter k t = Some (ch, t')" "tracker_ok t'" "live t' = live t" "chan_of k ch t'"
    "\<And>l c. chan_of l c t \<Longrightarrow> chan_of l c t'"
proof -
  have fresh: "made t \<notin> set (shut t)" "map_get (wait t) l \<noteq> Some (made t)" for l
    using assms by (auto simp: tracker_ok_def)
  consider (live) "replied k t" | (wait) ch where "\<not> replied k t" "map_get (wait t) k = Some ch"
    | (new) "\<not> replied k t" "map_get (wait t) k = None"
    by blast
  then show ?thesis
  proof cases
    case live
    let ?t = "t\<lparr>made := Suc (made t), shut := made t # shut t\<rparr>"
    have "waiter k t = Some (made t, ?t)"
      using live fresh by (simp add: waiter_def replied_def make_chan_def close_chan_def)
    then show ?thesis
      by (rule that) (use assms live fresh in \<open>auto simp: tracker_ok_def replied_def chan_of_def less_Suc_eq\<close>)
  next
    case wait
    then have "waiter k t = Some (ch, t)"
      by (simp add: waiter_def replied_def)
    then show ?thesis
      by (rule that) (use assms wait in \<open>auto simp: chan_of_def\<close>)
  next
    case new
    let ?t = "t\<lparr>made := Suc (made t), wait := map_put k (made t) (wait t)\<rparr>"
    have "waiter k t = Some (made t, ?t)"
      using new by (simp add: waiter_def replied_def make_chan_def)
    then show ?thesis
      by (rule that) (use assms new fresh in
        \<open>auto simp: tracker_ok_def replied_def chan_of_def map_get_put less_Suc_eq\<close>)
  qed
qed

text \<open>No wake-up is lost: a channel that was handed out for an address that has answered is closed.\<close>

lemma chan_of_closed: "tracker_ok t \<Longrightarrow> chan_of k ch t \<Longrightarrow> replied k t \<Longrightarrow> ch \<in> set (shut t)"
  by (auto simp: tracker_ok_def chan_of_def)

lemma wanted_keys_eq: "wanted_keys ips = map ip_string (filter (\<lambda>ip. ip \<noteq> []) (map to4 ips))"
  by (induction ips) (auto simp: Let_def)

lemma wanted_keys_ip4: "k \<in> set (wanted_keys ips) \<Longrightarrow> \<exists>ip. is_ip4 ip \<and> ip \<in> to4 ` set ips \<and> k = ip_string ip"
  using to4_not_Nil by (auto simp: wanted_keys_eq is_ip4_def)

definition icmp_device :: "ip \<Rightarrow> device" where
  "icmp_device ip = zero_device\<lparr>IP := ip, Status := StatusUp\<rparr>"

lemma icmp_device_fields [simp]:
  "IP (icmp_device ip) = ip" "Status (icmp_device ip) = StatusUp" "MAC (icmp_device ip) = []"
  "Vendor (icmp_device ip) = []" "Type (icmp_device ip) = []" "Hostname (icmp_device ip) = []"
  "SysInfo (icmp_device ip) = zero_info"
  by (simp_all add: icmp_device_def zero_device_def)

lemma icmp_devices_map:
  "list_all is_ip4 ips \<Longrightarrow> icmp_devices (map ip_string ips) = map icmp_device ips"
proof (induction ips)
  case (Cons ip ips)
  then have "to4 (parse_ip (ip_string ip)) = ip" "ip \<noteq> []"
    using ipkey.unkey_key[of ip] by (auto simp: is_ip4_def)
  then show ?case
    using Cons by (simp add: icmp_devices_def map_filter_simps Let_def icmp_device_def)
qed (simp add: icmp_devices_def map_filter_simps)

text \<open>Every device of the stage has a four-byte address and is up, whatever the keys are.\<close>

lemma icmp_devices_ok: "d \<in> set (icmp_devices keys) \<Longrightarrow> is_ip4 (IP d) \<and> d = icmp_device (IP d)"
  using to4_not_Nil
  by (auto simp: icmp_devices_def map_filter_def Let_def is_ip4_def icmp_device_def split: if_splits)

end
