(* ===== verification/Options.thy ===== *)
theory Options
  imports SshHealth Icmpping
begin

text \<open>
  The command line of \<open>main.go\<close>: the options, their defaults, and how package \<open>flag\<close> reads them from
  the arguments.  What is written when the arguments are wrong is not modelled.
\<close>

subsection \<open>The options\<close>

record options =
  o_iface :: string
  o_workers :: int
  o_timeout :: int
  o_scanTimeout :: int
  o_noDNS :: bool
  o_noPing :: bool
  o_pingCount :: int
  o_enableSSH :: bool
  o_quiet :: bool
  o_showVersion :: bool
  o_maxHosts :: int

definition defaultMaxHosts :: int where "defaultMaxHosts = 4096"

definition default_options :: options where
  "default_options =
     \<lparr>o_iface = '''', o_workers = 64, o_timeout = 750 * 1000000, o_scanTimeout = 2 * 60 * 1000000000,
      o_noDNS = False, o_noPing = False, o_pingCount = DefaultAttempts, o_enableSSH = False, o_quiet = False,
      o_showVersion = False, o_maxHosts = defaultMaxHosts\<rparr>"

datatype flag =
    StringVar "string \<Rightarrow> options \<Rightarrow> options"
  | IntVar "int \<Rightarrow> options \<Rightarrow> options"
  | DurationVar "int \<Rightarrow> options \<Rightarrow> options"
  | BoolVar "bool \<Rightarrow> options \<Rightarrow> options"

definition flags :: "(string \<times> flag) list" where
  "flags =
    [(''interface'', StringVar (\<lambda>v. o_iface_update (\<lambda>_. v))),
     (''i'', StringVar (\<lambda>v. o_iface_update (\<lambda>_. v))),
     (''workers'', IntVar (\<lambda>v. o_workers_update (\<lambda>_. v))),
     (''timeout'', DurationVar (\<lambda>v. o_timeout_update (\<lambda>_. v))),
     (''scan-timeout'', DurationVar (\<lambda>v. o_scanTimeout_update (\<lambda>_. v))),
     (''no-dns'', BoolVar (\<lambda>v. o_noDNS_update (\<lambda>_. v))),
     (''no-ping'', BoolVar (\<lambda>v. o_noPing_update (\<lambda>_. v))),
     (''ping-count'', IntVar (\<lambda>v. o_pingCount_update (\<lambda>_. v))),
     (''ssh'', BoolVar (\<lambda>v. o_enableSSH_update (\<lambda>_. v))),
     (''quiet'', BoolVar (\<lambda>v. o_quiet_update (\<lambda>_. v))),
     (''version'', BoolVar (\<lambda>v. o_showVersion_update (\<lambda>_. v))),
     (''max-hosts'', IntVar (\<lambda>v. o_maxHosts_update (\<lambda>_. v)))]"

subsection \<open>Values\<close>

text \<open>\<open>strconv.ParseBool\<close>\<close>

definition parse_bool :: "string \<Rightarrow> bool option" where
  "parse_bool s =
     (if s \<in> {''1'', ''t'', ''T'', ''true'', ''TRUE'', ''True''} then Some True
      else if s \<in> {''0'', ''f'', ''F'', ''false'', ''FALSE'', ''False''} then Some False
      else None)"

text \<open>\<open>strconv.ParseInt(s, 0, 64)\<close>: a prefix gives the base, and underscores may separate digits.\<close>

fun based_val :: "nat \<Rightarrow> nat \<Rightarrow> string \<Rightarrow> nat option" where
  "based_val base acc [] = Some acc"
| "based_val base acc (c # cs) =
     (if c = CHR ''_'' then based_val base acc cs
      else let v = (case digit c of
             Some d \<Rightarrow> Some d
           | None \<Rightarrow> let l = byte_val (lower_byte c) in if 97 \<le> l \<and> l \<le> 122 then Some (l - 87) else None)
        in case v of None \<Rightarrow> None | Some d \<Rightarrow> if d \<ge> base then None else based_val base (base * acc + d) cs)"

definition base_prefix :: "string \<Rightarrow> nat \<times> string" where
  "base_prefix s =
     (case s of
        c # p # q # cs \<Rightarrow>
          if c \<noteq> CHR ''0'' then (10, s)
          else if lower_byte p = CHR ''b'' then (2, q # cs)
          else if lower_byte p = CHR ''o'' then (8, q # cs)
          else if lower_byte p = CHR ''x'' then (16, q # cs)
          else (8, tl s)
      | c # cs \<Rightarrow> if c = CHR ''0'' then (8, cs) else (10, s)
      | [] \<Rightarrow> (10, s))"

datatype seen = SeenStart | SeenDigit | SeenUnderscore | SeenOther

fun underscores :: "bool \<Rightarrow> seen \<Rightarrow> string \<Rightarrow> bool" where
  "underscores hex prev [] = (prev \<noteq> SeenUnderscore)"
| "underscores hex prev (c # cs) =
     (if digit c \<noteq> None \<or> hex \<and> 97 \<le> byte_val (lower_byte c) \<and> byte_val (lower_byte c) \<le> 102
      then underscores hex SeenDigit cs
      else if c = CHR ''_'' then prev = SeenDigit \<and> underscores hex SeenUnderscore cs
      else prev \<noteq> SeenUnderscore \<and> underscores hex SeenOther cs)"

definition underscoreOK :: "string \<Rightarrow> bool" where
  "underscoreOK s =
     (case s of
        c # p # cs \<Rightarrow>
          if c = CHR ''0'' \<and> lower_byte p \<in> {CHR ''b'', CHR ''o'', CHR ''x''}
          then underscores (lower_byte p = CHR ''x'') SeenDigit cs
          else underscores False SeenStart s
      | _ \<Rightarrow> underscores False SeenStart s)"

definition parse_int0 :: "string \<Rightarrow> int option" where
  "parse_int0 s =
     (let (neg, u) = (case s of [] \<Rightarrow> (False, []) | c # cs \<Rightarrow>
                        if c = CHR ''-'' then (True, cs) else if c = CHR ''+'' then (False, cs) else (False, s));
          (base, ds) = base_prefix u
      in if u = [] then None
         else case based_val base 0 ds of
                None \<Rightarrow> None
              | Some n \<Rightarrow>
                  if CHR ''_'' \<in> set ds \<and> \<not> underscoreOK u then None
                  else if neg then (if n \<le> 2 ^ 63 then Some (- int n) else None)
                  else if n < 2 ^ 63 then Some (int n) else None)"

text \<open>\<open>time.ParseDuration\<close>, in nanoseconds.  The fraction is computed in doubles.\<close>

definition duration_units :: "(string \<times> nat) list" where
  "duration_units =
    [(''ns'', 1), (''us'', 1000), ([CHR 0xC2, CHR 0xB5, CHR ''s''], 1000), ([CHR 0xCE, CHR 0xBC, CHR ''s''], 1000),
     (''ms'', 1000000), (''s'', 1000000000), (''m'', 60 * 1000000000), (''h'', 3600 * 1000000000)]"

definition is_digit :: "char \<Rightarrow> bool" where
  "is_digit c \<longleftrightarrow> digit c \<noteq> None"

fun leading_int :: "nat \<Rightarrow> string \<Rightarrow> (nat \<times> string) option" where
  "leading_int x [] = Some (x, [])"
| "leading_int x (c # cs) =
     (case digit c of
        None \<Rightarrow> Some (x, c # cs)
      | Some d \<Rightarrow>
          if x > 2 ^ 63 div 10 then None
          else if 10 * x + d > 2 ^ 63 then None
          else leading_int (10 * x + d) cs)"

text \<open>The value of the digits that fit, how many they are, and what follows the digits.\<close>

fun leading_fraction :: "nat \<Rightarrow> nat \<Rightarrow> bool \<Rightarrow> string \<Rightarrow> nat \<times> nat \<times> string" where
  "leading_fraction x k over [] = (x, k, [])"
| "leading_fraction x k over (c # cs) =
     (case digit c of
        None \<Rightarrow> (x, k, c # cs)
      | Some d \<Rightarrow>
          if over \<or> x > (2 ^ 63 - 1) div 10 \<or> 10 * x + d > 2 ^ 63 then leading_fraction x k True cs
          else leading_fraction (10 * x + d) (Suc k) False cs)"

definition f64_times :: "f64 \<Rightarrow> f64 \<Rightarrow> f64" where
  "f64_times x y =
     (case (x, y) of
        (Fin m e, Fin n f) \<Rightarrow>
          if e + f \<ge> 0 then f64_ratio (m * n * 2 ^ nat (e + f)) 1 else f64_ratio (m * n) (2 ^ nat (- (e + f)))
      | _ \<Rightarrow> PosInf)"

definition f64_floor :: "f64 \<Rightarrow> nat" where
  "f64_floor x = (case x of Fin m e \<Rightarrow> if e \<ge> 0 then m * 2 ^ nat e else m div 2 ^ nat (- e) | PosInf \<Rightarrow> 0)"

definition fraction_of :: "nat \<Rightarrow> nat \<Rightarrow> nat \<Rightarrow> nat" where
  "fraction_of f k unit = f64_floor (f64_times (f64_ratio f 1) (f64_ratio unit (10 ^ k)))"

text \<open>One number with its unit, and the rest of the string.\<close>

definition duration_part :: "string \<Rightarrow> (nat \<times> string) option" where
  "duration_part s =
     (case s of
        [] \<Rightarrow> None
      | c # _ \<Rightarrow>
          if \<not> (c = CHR ''.'' \<or> is_digit c) then None
          else case leading_int 0 s of
            None \<Rightarrow> None
          | Some (v, s1) \<Rightarrow>
              let pre = length s1 \<noteq> length s;
                  point = (s1 \<noteq> [] \<and> hd s1 = CHR ''.'');
                  (f, k, s2) = (if point then leading_fraction 0 0 False (tl s1) else (0, 0, s1));
                  post = (point \<and> length s2 \<noteq> length (tl s1));
                  u = takeWhile (\<lambda>c. c \<noteq> CHR ''.'' \<and> \<not> is_digit c) s2;
                  s3 = drop (length u) s2
              in if \<not> pre \<and> \<not> post then None
                 else if u = [] then None
                 else case map_of duration_units u of
                   None \<Rightarrow> None
                 | Some unit \<Rightarrow>
                     if v > 2 ^ 63 div unit then None
                     else let v = v * unit; v = (if f > 0 then v + fraction_of f k unit else v)
                       in if f > 0 \<and> v > 2 ^ 63 then None else Some (v, s3))"

lemma duration_part_shorter: "duration_part s = Some (v, r) \<Longrightarrow> length r < length s"
proof -
  have int: "leading_int x t = Some (v, t') \<Longrightarrow> length t' \<le> length t" for x v t t'
    by (induction x t rule: leading_int.induct) (auto split: option.splits if_splits)
  have frac: "leading_fraction x k b t = (f, j, t') \<Longrightarrow> length t' \<le> length t" for x k b t f j t'
    by (induction x k b t rule: leading_fraction.induct) (auto split: option.splits if_splits)
  have takes: "takeWhile P t \<noteq> [] \<Longrightarrow> length (drop (length (takeWhile P t)) t) < length t" for P and t :: string
    by (cases t) (auto split: if_splits)
  assume d: "duration_part s = Some (v, r)"
  then obtain c t where s: "s = c # t"
    by (auto simp: duration_part_def split: list.splits)
  obtain v1 s1 where l: "leading_int 0 s = Some (v1, s1)"
    using d unfolding duration_part_def s by (auto split: if_splits option.splits)
  let ?point = "s1 \<noteq> [] \<and> hd s1 = CHR ''.''"
  obtain f k s2 where fk: "(if ?point then leading_fraction 0 0 False (tl s1) else (0, 0, s1)) = (f, k, s2)"
    by (metis surj_pair)
  have "length s2 \<le> length s1"
    using fk frac[of 0 0 False "tl s1"] by (auto split: if_splits)
  moreover have "length s1 \<le> length s"
    using int[OF l] .
  moreover have "length r < length s2"
  proof -
    have "r = drop (length (takeWhile (\<lambda>c. c \<noteq> CHR ''.'' \<and> \<not> is_digit c) s2)) s2 \<and>
        takeWhile (\<lambda>c. c \<noteq> CHR ''.'' \<and> \<not> is_digit c) s2 \<noteq> []"
      using d l[unfolded s] fk unfolding duration_part_def s Let_def
      by (simp split: if_splits option.splits)
    then show ?thesis
      using takes by metis
  qed
  ultimately show ?thesis
    by simp
qed

function duration_sum :: "nat \<Rightarrow> string \<Rightarrow> nat option" where
  "duration_sum d s =
     (if s = [] then Some d
      else case duration_part s of
        None \<Rightarrow> None
      | Some (v, r) \<Rightarrow> if d + v > 2 ^ 63 then None else duration_sum (d + v) r)"
  by pat_completeness auto

termination
  by (relation "measure (length \<circ> snd)") (auto dest: duration_part_shorter)

declare duration_sum.simps [simp del]

definition parse_duration :: "string \<Rightarrow> int option" where
  "parse_duration s =
     (let (neg, u) = (case s of [] \<Rightarrow> (False, []) | c # cs \<Rightarrow>
                        if c = CHR ''-'' then (True, cs) else if c = CHR ''+'' then (False, cs) else (False, s))
      in if u = ''0'' then Some 0
         else if u = [] then None
         else case duration_sum 0 u of
                None \<Rightarrow> None
              | Some d \<Rightarrow> if neg then Some (- int d) else if d > 2 ^ 63 - 1 then None else Some (int d))"

subsection \<open>The arguments\<close>

definition set_flag :: "flag \<Rightarrow> string \<Rightarrow> options \<Rightarrow> options option" where
  "set_flag fl v o0 =
     (case fl of
        StringVar f \<Rightarrow> Some (f v o0)
      | IntVar f \<Rightarrow> map_option (\<lambda>n. f n o0) (parse_int0 v)
      | DurationVar f \<Rightarrow> map_option (\<lambda>n. f n o0) (parse_duration v)
      | BoolVar f \<Rightarrow> map_option (\<lambda>b. f b o0) (parse_bool v))"

definition is_bool_flag :: "flag \<Rightarrow> bool" where
  "is_bool_flag fl \<longleftrightarrow> (case fl of BoolVar f \<Rightarrow> True | _ \<Rightarrow> False)"

text \<open>The name after the dashes, and the value after the first \<open>=\<close> that does not begin it.\<close>

definition split_name :: "string \<Rightarrow> string \<times> string option" where
  "split_name s =
     (case index_byte (tl s) (CHR ''='') of
        None \<Rightarrow> (s, None)
      | Some i \<Rightarrow> (take (Suc i) s, Some (drop (Suc (Suc i)) s)))"

text \<open>\<open>None\<close> is an error, or the request for help.\<close>

fun parse_flags :: "string list \<Rightarrow> options \<Rightarrow> options option" where
  "parse_flags [] o0 = Some o0"
| "parse_flags (s # args) o0 =
     (if length s < 2 \<or> s ! 0 \<noteq> CHR ''-'' then Some o0
      else if s = ''--'' then Some o0
      else
        let name = (if s ! 1 = CHR ''-'' then drop 2 s else drop 1 s) in
        if name = [] \<or> name ! 0 = CHR ''-'' \<or> name ! 0 = CHR ''='' then None
        else
          let (name, value) = split_name name in
          case map_of flags name of
            None \<Rightarrow> None
          | Some fl \<Rightarrow>
              if is_bool_flag fl then
                (case set_flag fl (case value of Some v \<Rightarrow> v | None \<Rightarrow> ''true'') o0 of
                   None \<Rightarrow> None
                 | Some o1 \<Rightarrow> parse_flags args o1)
              else
                (case value of
                   Some v \<Rightarrow> (case set_flag fl v o0 of None \<Rightarrow> None | Some o1 \<Rightarrow> parse_flags args o1)
                 | None \<Rightarrow>
                     (case args of
                        [] \<Rightarrow> None
                      | v # rest \<Rightarrow> (case set_flag fl v o0 of None \<Rightarrow> None | Some o1 \<Rightarrow> parse_flags rest o1))))"

subsection \<open>Numbers read back\<close>

lemma no_digits [simp]:
  "digit (CHR ''_'') = None" "digit (CHR ''-'') = None" "digit (CHR ''+'') = None" "digit (CHR ''n'') = None"
  "digit (CHR ''s'') = None" "digit (CHR ''.'') = None" "digit (CHR ''0'') = Some 0"
  by code_simp+

lemma based_val_digits: "digits_val x s = Some n \<Longrightarrow> based_val 10 x s = Some n"
proof (induction s arbitrary: x)
  case (Cons c s)
  then obtain d where d: "digit c = Some d" "digits_val (10 * x + d) s = Some n"
    by (auto split: option.splits)
  then have "d < 10"
    by (auto simp: digit_def split: if_splits)
  moreover have "c \<noteq> CHR ''_''"
    using d(1) by auto
  ultimately have "d < 10" "c \<noteq> CHR ''_''" .
  then show ?case
    using Cons.IH d by simp
qed simp

lemma dec_first: "dec n = c # cs \<Longrightarrow> digit c \<noteq> None \<and> (0 < n \<longrightarrow> c \<noteq> CHR ''0'')"
proof (induction n arbitrary: c cs rule: dec.induct)
  case (1 n)
  show ?case
  proof (cases "n < 10")
    case True
    then show ?thesis
      using 1(2) digit_char_0_iff[of n] by (auto simp: dec.simps[of n])
  next
    case False
    then obtain c' cs' where "dec (n div 10) = c' # cs'"
      by (cases "dec (n div 10)") auto
    then show ?thesis
      using 1(1)[OF False] 1(2) False by (auto simp: dec.simps[of n])
  qed
qed

lemma underscore_dec: "CHR ''_'' \<notin> set (dec n)"
  using dec_digits[of "CHR ''_''" n] by auto

lemma base_prefix_dec: "\<exists>ds base. base_prefix (dec n) = (base, ds) \<and> based_val base 0 ds = Some n \<and> set ds \<subseteq> set (dec n)"
proof (cases "n = 0")
  case True
  moreover have "dec 0 = ''0''"
    by code_simp
  ultimately show ?thesis
    by (simp add: base_prefix_def)
next
  case False
  obtain c cs where c: "dec n = c # cs"
    by (cases "dec n") auto
  then have "base_prefix (dec n) = (10, dec n)"
    using dec_first[OF c] False by (auto simp: base_prefix_def split: list.split)
  then show ?thesis
    using based_val_digits[OF digits_val_dec] by simp
qed

lemma sign_dec: "dec n = c # cs \<Longrightarrow> c \<noteq> CHR ''-'' \<and> c \<noteq> CHR ''+''"
  using dec_first[of n c cs] by auto

lemma parse_int0_fmt:
  assumes "- (2 ^ 63) \<le> i" "i < 2 ^ 63"
  shows "parse_int0 (fmt_int i) = Some i"
proof -
  obtain ds base where b: "base_prefix (dec (nat \<bar>i\<bar>)) = (base, ds)" "based_val base 0 ds = Some (nat \<bar>i\<bar>)"
    "CHR ''_'' \<notin> set ds"
    using base_prefix_dec[of "nat \<bar>i\<bar>"] underscore_dec by blast
  obtain c cs where c: "dec (nat \<bar>i\<bar>) = c # cs"
    by (cases "dec (nat \<bar>i\<bar>)") auto
  show ?thesis
    using b c sign_dec[OF c] assms by (cases "i < 0") (auto simp: parse_int0_def fmt_int_def Let_def)
qed

lemma leading_int_digits:
  assumes "digits_val x s = Some n" "n \<le> 2 ^ 63" "r \<noteq> []" "\<not> is_digit (hd r)"
  shows "leading_int x (s @ r) = Some (n, r)"
  using assms(1)
proof (induction s arbitrary: x)
  case Nil
  then show ?case
    using assms(3,4) by (cases r) (auto simp: is_digit_def)
next
  case (Cons c s)
  then obtain d where d: "digit c = Some d" "digits_val (10 * x + d) s = Some n"
    by (auto split: option.splits)
  have "y \<le> n" if "digits_val y t = Some n" for y t
    using that by (induction t arbitrary: y) (fastforce split: option.splits)+
  then have "10 * x + d \<le> 2 ^ 63"
    using d(2) assms(2) by (meson order_trans)
  then have "\<not> x > 2 ^ 63 div 10" "\<not> 10 * x + d > 2 ^ 63"
    by simp_all
  then show ?case
    using Cons.IH[OF d(2)] d(1) by simp
qed

lemma duration_dec: "n < 2 ^ 63 \<Longrightarrow> parse_duration (dec n @ ''ns'') = Some (int n)"
proof -
  assume n: "n < 2 ^ 63"
  obtain c cs where c: "dec n = c # cs"
    by (cases "dec n") auto
  have "leading_int 0 (dec n @ ''ns'') = Some (n, ''ns'')"
    by (rule leading_int_digits[OF digits_val_dec]) (use n in \<open>auto simp: is_digit_def\<close>)
  then have "duration_part (dec n @ ''ns'') = Some (n, [])"
    using dec_first[OF c] n unfolding duration_part_def c
    by (simp add: is_digit_def duration_units_def)
  then have "duration_sum 0 (dec n @ ''ns'') = Some n"
    using n by (simp add: duration_sum.simps[of 0 "dec n @ ''ns''"] duration_sum.simps[of n])
  then show ?thesis
    using n sign_dec[OF c] c by (auto simp: parse_duration_def)
qed

subsection \<open>Options as arguments\<close>

definition show_bool :: "bool \<Rightarrow> string" where
  "show_bool b = (if b then ''true'' else ''false'')"

definition show_duration :: "int \<Rightarrow> string" where
  "show_duration d = dec (nat d) @ ''ns''"

definition arg :: "string \<Rightarrow> string \<Rightarrow> string" where
  "arg name v = CHR ''-'' # name @ CHR ''='' # v"

definition arguments :: "options \<Rightarrow> string list" where
  "arguments p =
    [arg ''interface'' (o_iface p), arg ''workers'' (fmt_int (o_workers p)), arg ''timeout'' (show_duration (o_timeout p)),
     arg ''scan-timeout'' (show_duration (o_scanTimeout p)), arg ''no-dns'' (show_bool (o_noDNS p)),
     arg ''no-ping'' (show_bool (o_noPing p)), arg ''ping-count'' (fmt_int (o_pingCount p)),
     arg ''ssh'' (show_bool (o_enableSSH p)), arg ''quiet'' (show_bool (o_quiet p)),
     arg ''version'' (show_bool (o_showVersion p)), arg ''max-hosts'' (fmt_int (o_maxHosts p))]"

definition expressible :: "options \<Rightarrow> bool" where
  "expressible p \<longleftrightarrow>
     (\<forall>i \<in> {o_workers p, o_pingCount p, o_maxHosts p}. - (2 ^ 63) \<le> i \<and> i < 2 ^ 63) \<and>
     (\<forall>d \<in> {o_timeout p, o_scanTimeout p}. 0 \<le> d \<and> d < 2 ^ 63)"

lemma parse_flags_arg:
  assumes "name \<noteq> []" "CHR ''='' \<notin> set name" "hd name \<noteq> CHR ''-''" "map_of flags name = Some fl"
  shows "parse_flags (arg name v # args) p = (case set_flag fl v p of None \<Rightarrow> None | Some p1 \<Rightarrow> parse_flags args p1)"
proof -
  obtain c cs where name: "name = c # cs" "c \<noteq> CHR ''-''" "c \<noteq> CHR ''=''" "CHR ''='' \<notin> set cs"
    using assms(1-3) by (cases name) auto
  have "split_name (name @ CHR ''='' # v) = (name, Some v)"
    using name index_byte_append[of "CHR ''=''" cs v] by (simp add: split_name_def)
  then show ?thesis
    using name assms(4) by (auto simp: arg_def split: option.split)
qed

lemma parse_show_bool: "parse_bool (show_bool b) = Some b"
  by (simp add: parse_bool_def show_bool_def)

text \<open>C30.  The command line can express any options: written as \<open>-name=value\<close> arguments, the numbers in
  decimal and the durations in nanoseconds, they are read back as they were.\<close>

theorem options_read:
  assumes "expressible p"
  shows "parse_flags (arguments p) default_options = Some p"
proof -
  have ints: "parse_int0 (fmt_int (o_workers p)) = Some (o_workers p)"
    "parse_int0 (fmt_int (o_pingCount p)) = Some (o_pingCount p)"
    "parse_int0 (fmt_int (o_maxHosts p)) = Some (o_maxHosts p)"
    using assms parse_int0_fmt by (simp_all add: expressible_def)
  have durs: "parse_duration (show_duration (o_timeout p)) = Some (o_timeout p)"
    "parse_duration (show_duration (o_scanTimeout p)) = Some (o_scanTimeout p)"
    using assms duration_dec[of "nat (o_timeout p)"] duration_dec[of "nat (o_scanTimeout p)"]
    by (auto simp: expressible_def show_duration_def nat_less_iff)
  show ?thesis
    unfolding arguments_def
    by (simp add: parse_flags_arg flags_def set_flag_def ints durs parse_show_bool default_options_def del: parse_flags.simps(2))
qed

theorem options_read_witness: "parse_flags (arguments (default_options\<lparr>o_iface := ''en0''\<rparr>)) default_options =
    Some (default_options\<lparr>o_iface := ''en0''\<rparr>)"
  by (rule options_read) (simp add: expressible_def default_options_def DefaultAttempts_def defaultMaxHosts_def)

end
