(* ===== verification/Arpscan.thy ===== *)
theory Arpscan
  imports Pipeline Oui
begin

text \<open>
  \<open>internal/arpscan/arpscan.go\<close>: the ARP sweep.  The capture library is not part of the
  repository: what it does is the record \<open>pcap_env\<close> of functions on the world \<open>'w\<close>, and so are the
  context and the clock.  A wait answers whether the context ended it; the packets the reader took
  before it stopped are read off the world in which it is joined.
\<close>

subsection \<open>Errors, options and the environment\<close>

text \<open>An error value: the two errors of a context, or another error with its text, for which
  \<open>errors.Is(err, syscall.ENOBUFS)\<close> holds or not.\<close>

datatype go_error = Canceled | DeadlineExceeded | OtherError bool string

definition error_text :: "go_error \<Rightarrow> string" where
  "error_text e =
     (case e of
        Canceled \<Rightarrow> ''context canceled''
      | DeadlineExceeded \<Rightarrow> ''context deadline exceeded''
      | OtherError enobufs t \<Rightarrow> t)"

record 'w arp_options =
  opt_Workers :: int
  opt_Timeout :: int
  opt_Progress :: "(int \<Rightarrow> int \<Rightarrow> 'w \<Rightarrow> 'w) option"

definition defaults :: "'w arp_options \<Rightarrow> 'w arp_options" where
  "defaults opts =
     (let opts = (if opt_Workers opts \<le> 0 then opts\<lparr>opt_Workers := 64\<rparr> else opts)
      in if opt_Timeout opts \<le> 0 then opts\<lparr>opt_Timeout := 750 * 1000000\<rparr> else opts)"

datatype handle = RxHandle | TxHandle

text \<open>An ARP request as the code fills it in, and a packet as the reader sees it.\<close>

record arp_frame =
  eth_SrcMAC :: hwaddr
  eth_DstMAC :: hwaddr
  arp_Operation :: int
  arp_SourceHw :: hwaddr
  arp_SourceProt :: ip
  arp_DstHw :: hwaddr
  arp_DstProt :: ip

datatype packet = NilPacket | NoARPLayer | ARPLayer arp_frame

definition ARPRequest :: int where "ARPRequest = 1"
definition ARPReply :: int where "ARPReply = 2"

record 'w pcap_env =
  env_ctx_err :: "'w \<Rightarrow> go_error option"
  env_wait :: "int \<Rightarrow> 'w \<Rightarrow> bool \<times> 'w"
  env_open :: "handle \<Rightarrow> string \<Rightarrow> 'w \<Rightarrow> go_error option \<times> 'w"
  env_filter :: "string \<Rightarrow> 'w \<Rightarrow> go_error option \<times> 'w"
  env_close :: "handle \<Rightarrow> 'w \<Rightarrow> 'w"
  env_clear :: "'w \<Rightarrow> go_error option"
  env_serialize :: "arp_frame \<Rightarrow> go_error + byte list"
  env_write :: "handle \<Rightarrow> byte list \<Rightarrow> 'w \<Rightarrow> go_error option \<times> 'w"
  env_packets :: "'w \<Rightarrow> packet list"

subsection \<open>The injector\<close>

definition injectBurstMin :: int where "injectBurstMin = 2"
definition injectBurstStart :: int where "injectBurstStart = 8"
definition injectBurstMax :: int where "injectBurstMax = 32"
definition injectGap :: int where "injectGap = 1000000"
definition injectRetryMax :: nat where "injectRetryMax = 64"
definition injectBackoffMax :: int where "injectBackoffMax = 50 * 1000000"

record injector =
  inj_tx :: handle
  inj_burst :: int
  inj_limit :: int

definition newInjector :: "handle \<Rightarrow> injector" where
  "newInjector tx = \<lparr>inj_tx = tx, inj_burst = 0, inj_limit = injectBurstStart\<rparr>"

definition sleepCtx :: "'w pcap_env \<Rightarrow> int \<Rightarrow> 'w \<Rightarrow> go_error option \<times> 'w" where
  "sleepCtx env d w =
     (let (done, w1) = env_wait env d w in (if done then env_ctx_err env w1 else None, w1))"

definition isNoBuffer :: "go_error option \<Rightarrow> bool" where
  "isNoBuffer err =
     (case err of
        None \<Rightarrow> False
      | Some (OtherError True t) \<Rightarrow> True
      | Some e \<Rightarrow>
          (let s = error_text e in
           contains s ''No buffer space'' \<or> contains s ''no buffer space'' \<or> contains s ''ENOBUFS''))"

text \<open>The pause before the retry \<open>try\<close>, in the 64-bit arithmetic of \<open>time.Duration\<close>.\<close>

definition backoff :: "nat \<Rightarrow> int" where
  "backoff try =
     (let b = push_bit try (4 :: 64 word) * 1000000
      in if sint b > injectBackoffMax then injectBackoffMax else sint b)"

text \<open>What one successful write and one full ring do to the burst counters.\<close>

definition inj_sent :: "injector \<Rightarrow> injector \<times> bool" where
  "inj_sent q =
     (let q = q\<lparr>inj_burst := inj_burst q + 1\<rparr>
      in if inj_burst q < inj_limit q then (q, False)
         else
           let q = q\<lparr>inj_burst := 0\<rparr>
           in ((if inj_limit q < injectBurstMax then q\<lparr>inj_limit := inj_limit q + 1\<rparr> else q), True))"

definition inj_full :: "injector \<Rightarrow> injector" where
  "inj_full q =
     (let q = q\<lparr>inj_burst := 0\<rparr>
      in if inj_limit q > injectBurstMin then q\<lparr>inj_limit := inj_limit q div 2\<rparr> else q)"

text \<open>The loop of \<open>write\<close> with \<open>n\<close> tries left.\<close>

fun write_tries ::
  "'w pcap_env \<Rightarrow> byte list \<Rightarrow> nat \<Rightarrow> injector \<Rightarrow> 'w \<Rightarrow> (go_error option \<times> injector) \<times> 'w" where
  "write_tries env frame 0 q w =
     ((Some (OtherError False ''send: no buffer space available after retries''), q), w)"
| "write_tries env frame (Suc n) q w =
     (case env_ctx_err env w of
        Some e \<Rightarrow> ((Some e, q), w)
      | None \<Rightarrow>
          (let (err, w1) = env_write env (inj_tx q) frame w in
           if err = None then
             let (q1, pause) = inj_sent q in
             if pause then let (r, w2) = sleepCtx env injectGap w1 in ((r, q1), w2)
             else ((None, q1), w1)
           else if \<not> isNoBuffer err then ((err, q), w1)
           else
             let q1 = inj_full q;
                 (r, w2) = sleepCtx env (backoff (injectRetryMax - Suc n)) w1
             in case r of
                  Some e \<Rightarrow> ((Some e, q1), w2)
                | None \<Rightarrow> write_tries env frame n q1 w2))"

definition inj_write ::
  "'w pcap_env \<Rightarrow> byte list \<Rightarrow> injector \<Rightarrow> 'w \<Rightarrow> (go_error option \<times> injector) \<times> 'w" where
  "inj_write env frame = write_tries env frame injectRetryMax"

subsection \<open>Sending the requests\<close>

definition arp_request :: "interface \<Rightarrow> ip \<Rightarrow> ip \<Rightarrow> arp_frame" where
  "arp_request ifi srcIP ip4 =
     \<lparr>eth_SrcMAC = if_hwaddr ifi, eth_DstMAC = [255, 255, 255, 255, 255, 255],
      arp_Operation = ARPRequest, arp_SourceHw = if_hwaddr ifi, arp_SourceProt = srcIP,
      arp_DstHw = [0, 0, 0, 0, 0, 0], arp_DstProt = ip4\<rparr>"

definition progress_at :: "(int \<Rightarrow> int \<Rightarrow> 'w \<Rightarrow> 'w) option \<Rightarrow> int \<Rightarrow> int \<Rightarrow> 'w \<Rightarrow> 'w" where
  "progress_at p done n w = (case p of None \<Rightarrow> w | Some f \<Rightarrow> f done n w)"

text \<open>The loop over the targets from index \<open>i\<close>; the result is \<open>sendErr\<close>.\<close>

fun send_loop ::
  "'w pcap_env \<Rightarrow> 'w arp_options \<Rightarrow> interface \<Rightarrow> ip \<Rightarrow> int \<Rightarrow> int \<Rightarrow> ip list \<Rightarrow> injector \<Rightarrow> 'w \<Rightarrow>
   go_error option \<times> 'w" where
  "send_loop env opt ifi srcIP n i [] q w = (None, w)"
| "send_loop env opt ifi srcIP n i (ip # ips) q w =
     (if env_ctx_err env w \<noteq> None then (None, w)
      else
        let ip4 = to4 ip in
        if ip4 = [] then
          send_loop env opt ifi srcIP n (i + 1) ips q (progress_at (opt_Progress opt) (i + 1) n w)
        else
          case env_clear env w of
            Some e \<Rightarrow> (Some e, w)
          | None \<Rightarrow>
            (case env_serialize env (arp_request ifi srcIP ip4) of
               Inl e \<Rightarrow> (Some e, w)
             | Inr frame \<Rightarrow>
                (let ((err, q1), w1) = inj_write env frame q w in
                 case err of
                   Some e \<Rightarrow> (if e = Canceled \<or> e = DeadlineExceeded then None else Some e, w1)
                 | None \<Rightarrow>
                     send_loop env opt ifi srcIP n (i + 1) ips q1
                       (progress_at (opt_Progress opt) (i + 1) n w1))))"

subsection \<open>Reading the replies\<close>

text \<open>The tests of \<open>readARP\<close> on one packet: the address pair it passes on, if any.\<close>

definition accept_reply :: "hwaddr \<Rightarrow> packet \<Rightarrow> (ip \<times> hwaddr) option" where
  "accept_reply selfMAC p =
     (case p of
        NilPacket \<Rightarrow> None
      | NoARPLayer \<Rightarrow> None
      | ARPLayer a \<Rightarrow>
          if arp_Operation a \<noteq> ARPReply then None
          else if selfMAC = arp_SourceHw a then None
          else if length (arp_SourceProt a) \<noteq> 4 \<or> length (arp_SourceHw a) < 6 then None
          else Some (arp_SourceProt a, arp_SourceHw a))"

fun readARP :: "hwaddr \<Rightarrow> packet list \<Rightarrow> (ip \<Rightarrow> hwaddr \<Rightarrow> 's \<Rightarrow> 's) \<Rightarrow> 's \<Rightarrow> 's" where
  "readARP selfMAC [] onReply s = s"
| "readARP selfMAC (p # ps) onReply s =
     (case accept_reply selfMAC p of
        None \<Rightarrow> readARP selfMAC ps onReply s
      | Some (ip, mac) \<Rightarrow> readARP selfMAC ps onReply (onReply ip mac s))"

definition note_reply :: "ip \<Rightarrow> hwaddr \<Rightarrow> (string, hwaddr) gomap \<Rightarrow> (string, hwaddr) gomap" where
  "note_reply ip mac seen =
     (let key = ip_string ip in
      if map_get seen key = None then map_put key mac seen else seen)"

text \<open>The loop that turns the entries of the map into devices.\<close>

definition arp_device :: "ip \<Rightarrow> hwaddr \<Rightarrow> device" where
  "arp_device ip mac =
     (let d = zero_device\<lparr>IP := ip, MAC := mac, Vendor := Lookup mac, Status := StatusUp\<rparr>
      in d\<lparr>Type := InferType (Vendor d)\<rparr>)"

definition arp_devices :: "(string, hwaddr) gomap \<Rightarrow> device list" where
  "arp_devices entries =
     List.map_filter (\<lambda>(ipStr, mac). let ip = to4 (parse_ip ipStr) in
       if ip = [] then None else Some (arp_device ip mac)) entries"

subsection \<open>The stage\<close>

definition closeHandles :: "'w pcap_env \<Rightarrow> handle \<Rightarrow> 'w \<Rightarrow> 'w" where
  "closeHandles env tx w =
     (let w = env_close env RxHandle w in if tx \<noteq> RxHandle then env_close env TxHandle w else w)"

definition Scan ::
  "((string, hwaddr) gomap \<Rightarrow> (string, hwaddr) gomap) \<Rightarrow> 'w pcap_env \<Rightarrow> interface \<Rightarrow> ip \<Rightarrow> ip list \<Rightarrow>
   'w arp_options \<Rightarrow> 'w \<Rightarrow> (device list \<times> string option) \<times> 'w" where
  "Scan iter env ifi srcIP targets opt w =
     (let opt = defaults opt; srcIP = to4 srcIP in
      if srcIP = [] then (([], Some ''source IP must be IPv4''), w)
      else if length (if_hwaddr ifi) = 0
        then (([], Some (''interface '' @ if_name ifi @ '' has no MAC address'')), w)
      else if length targets = 0 then (([], None), w)
      else
        let (err, w1) = env_open env RxHandle (if_name ifi) w in
        case err of
          Some e \<Rightarrow> (([], Some (''open pcap on '' @ if_name ifi @ '': '' @ error_text e)), w1)
        | None \<Rightarrow>
          (let (txErr, w2) = env_open env TxHandle (if_name ifi) w1;
               tx = (if txErr \<noteq> None then RxHandle else TxHandle);
               (ferr, w3) = env_filter env ''arp'' w2
           in case ferr of
             Some e \<Rightarrow> (([], Some (''set BPF filter: '' @ error_text e)), closeHandles env tx w3)
           | None \<Rightarrow>
             (let (sendErr, w4) = send_loop env opt ifi srcIP (int (length targets)) 0 targets (newInjector tx) w3;
                  (ended, w5) = env_wait env (opt_Timeout opt) w4;
                  w6 = closeHandles env tx w5;
                  seen = readARP (if_hwaddr ifi) (env_packets env w6) note_reply []
              in case sendErr of
                   Some e \<Rightarrow> (([], Some (''send ARP: '' @ error_text e)), w6)
                 | None \<Rightarrow> ((arp_devices (iter seen), None), w6))))"

definition arp_method ::
  "((string, hwaddr) gomap \<Rightarrow> (string, hwaddr) gomap) \<Rightarrow> 'w pcap_env \<Rightarrow> 'w pmethod" where
  "arp_method iter env =
     \<lparr>m_Name = ''arp'', m_SoftFail = False,
      m_Run = (\<lambda>req w.
        Scan iter env (req_Iface req) (req_SrcIP req) (req_Targets req)
          \<lparr>opt_Workers = req_Workers req, opt_Timeout = req_Timeout req,
           opt_Progress = (case req_Progress req of None \<Rightarrow> None | Some f \<Rightarrow> Some (f ''arp''))\<rparr> w)\<rparr>"

subsection \<open>The injector as a transition system\<close>

inductive inj_step :: "injector \<Rightarrow> injector \<Rightarrow> bool" where
  sent: "inj_step q (fst (inj_sent q))"
| full: "inj_step q (inj_full q)"

inductive_cases inj_stepE: "inj_step q q'"

definition inj_ok :: "injector \<Rightarrow> bool" where
  "inj_ok q \<longleftrightarrow> 1 \<le> inj_limit q \<and> inj_limit q \<le> injectBurstMax \<and> 0 \<le> inj_burst q \<and> inj_burst q < inj_limit q"

lemmas inj_defs = inj_ok_def inj_sent_def inj_full_def newInjector_def
  injectBurstMin_def injectBurstMax_def injectBurstStart_def Let_def

interpretation injector: inv_system "\<lambda>q. \<exists>tx. q = newInjector tx" inj_step inj_ok
proof unfold_locales
  show "inj_ok q" if "\<exists>tx. q = newInjector tx" for q
    using that by (auto simp: inj_defs)
  show "inj_ok q'" if "inj_ok q" "inj_step q q'" for q q'
    using that(2,1) by (cases rule: inj_step.cases) (auto simp: inj_defs)
qed

text \<open>The six ways in which one turn of the retry loop goes on.\<close>

lemma write_tries_cases:
  assumes "write_tries env frame (Suc n) q w = ((r, q'), w')"
  obtains
    (ended) e where "env_ctx_err env w = Some e" "r = Some e" "q' = q" "w' = w"
  | (sent) "env_ctx_err env w = None" "env_write env (inj_tx q) frame w = (None, w')"
      "\<not> snd (inj_sent q)" "r = None" "q' = fst (inj_sent q)"
  | (paused) w1 where "env_ctx_err env w = None" "env_write env (inj_tx q) frame w = (None, w1)"
      "snd (inj_sent q)" "sleepCtx env injectGap w1 = (r, w')" "q' = fst (inj_sent q)"
  | (failed) e where "env_ctx_err env w = None" "env_write env (inj_tx q) frame w = (Some e, w')"
      "\<not> isNoBuffer (Some e)" "r = Some e" "q' = q"
  | (interrupted) e e' w1 where "env_ctx_err env w = None" "env_write env (inj_tx q) frame w = (Some e, w1)"
      "sleepCtx env (backoff (injectRetryMax - Suc n)) w1 = (Some e', w')" "r = Some e'" "q' = inj_full q"
  | (again) e w1 w2 where "env_ctx_err env w = None" "env_write env (inj_tx q) frame w = (Some e, w1)"
      "sleepCtx env (backoff (injectRetryMax - Suc n)) w1 = (None, w2)"
      "write_tries env frame n (inj_full q) w2 = ((r, q'), w')"
proof (cases "env_ctx_err env w")
  case (Some e)
  then have "r = Some e" "q' = q" "w' = w"
    using assms by simp_all
  then show ?thesis
    using ended Some by blast
next
  case None
  obtain err w1 where wr: "env_write env (inj_tx q) frame w = (err, w1)"
    by fastforce
  show ?thesis
  proof (cases err)
    case err: None
    obtain q1 pause where st: "inj_sent q = (q1, pause)"
      by fastforce
    obtain r2 w2 where sl: "sleepCtx env injectGap w1 = (r2, w2)"
      by fastforce
    show ?thesis
    proof (cases pause)
      case True
      then have "r2 = r" "q1 = q'" "w2 = w'"
        using assms None wr err st sl by simp_all
      then show ?thesis
        using paused None wr err st sl True by (metis fst_conv snd_conv)
    next
      case False
      then have "r = None" "q1 = q'" "w1 = w'"
        using assms None wr err st by simp_all
      then show ?thesis
        using sent None wr err st False by (metis fst_conv snd_conv)
    qed
  next
    case err: (Some e)
    obtain r2 w2 where sl: "sleepCtx env (backoff (injectRetryMax - Suc n)) w1 = (r2, w2)"
      by fastforce
    show ?thesis
    proof (cases "isNoBuffer err")
      case True
      then have step: "(case r2 of Some e \<Rightarrow> ((Some e, inj_full q), w2) | None \<Rightarrow> write_tries env frame n (inj_full q) w2) =
          ((r, q'), w')"
        using assms None wr err sl by (simp add: Let_def)
      show ?thesis
      proof (cases r2)
        case r2: None
        then show ?thesis
          using step again None wr err sl by (metis option.simps(4))
      next
        case r2: (Some e')
        then have "r = Some e'" "q' = inj_full q" "w2 = w'"
          using step by simp_all
        then show ?thesis
          using interrupted None wr err sl r2 by blast
      qed
    next
      case False
      then have "r = Some e" "q' = q" "w1 = w'"
        using assms None wr err by simp_all
      then show ?thesis
        using failed None wr err False by blast
    qed
  qed
qed

lemma write_tries_steps:
  "write_tries env frame n q w = ((r, q'), w') \<Longrightarrow> inj_step\<^sup>*\<^sup>* q q'"
proof (induction n arbitrary: q w)
  case 0
  then show ?case by simp
next
  case (Suc n)
  from Suc.prems show ?case
  proof (cases rule: write_tries_cases)
    case again
    then show ?thesis
      using Suc.IH by (meson converse_rtranclp_into_rtranclp inj_step.full)
  qed (auto intro: inj_step.intros)
qed

lemma inj_write_ok: "inj_ok q \<Longrightarrow> inj_write env frame q w = ((r, q'), w') \<Longrightarrow> inj_ok q'"
  unfolding inj_write_def using write_tries_steps injector.inv_steps by metis

subsection \<open>Pacing\<close>

text \<open>The traffic of a run as a list, last event first: true for a frame handed to the driver, false
  for a pause.  \<open>cur_run\<close> is the number of frames since the last pause, \<open>max_run\<close> the most that
  ever were.\<close>

fun cur_run :: "bool list \<Rightarrow> nat" where
  "cur_run [] = 0"
| "cur_run (sent # l) = (if sent then Suc (cur_run l) else 0)"

fun max_run :: "bool list \<Rightarrow> nat" where
  "max_run [] = 0"
| "max_run (e # l) = max (cur_run (e # l)) (max_run l)"

definition logs :: "'w pcap_env \<Rightarrow> ('w \<Rightarrow> bool list) \<Rightarrow> bool" where
  "logs env log \<longleftrightarrow>
     (\<forall>h f w. log (snd (env_write env h f w)) = True # log w) \<and>
     (\<forall>d w. log (snd (env_wait env d w)) = False # log w)"

definition keeps :: "'w arp_options \<Rightarrow> ('w \<Rightarrow> 'a) \<Rightarrow> bool" where
  "keeps opt f \<longleftrightarrow> (\<forall>a b w. f (progress_at (opt_Progress opt) a b w) = f w)"

definition paced :: "injector \<Rightarrow> bool list \<Rightarrow> bool" where
  "paced q l \<longleftrightarrow> inj_ok q \<and> int (cur_run l) \<le> inj_burst q \<and> int (max_run l) \<le> injectBurstMax"

lemma sleepCtx_world: "sleepCtx env d w = (r, w') \<Longrightarrow> w' = snd (env_wait env d w)"
  by (auto simp: sleepCtx_def Let_def split: prod.splits)

lemma paced_write: "paced q l \<Longrightarrow> int (max_run (True # l)) \<le> injectBurstMax"
  by (auto simp: paced_def inj_ok_def)

lemma paced_sent: "paced q l \<Longrightarrow> \<not> snd (inj_sent q) \<Longrightarrow> paced (fst (inj_sent q)) (True # l)"
  by (auto simp: paced_def inj_defs split: if_splits)

lemma paced_pause:
  "paced q l \<Longrightarrow> inj_ok q' \<Longrightarrow> paced q' (False # True # l)"
  using paced_write[of q l] by (auto simp: paced_def inj_ok_def)

lemma inj_ok_step: "inj_ok q \<Longrightarrow> inj_ok (fst (inj_sent q))" "inj_ok q \<Longrightarrow> inj_ok (inj_full q)"
  using injector.inv_step inj_step.intros by blast+

lemma write_tries_paced:
  assumes "logs env log" "write_tries env frame n q w = ((r, q'), w')" "paced q (log w)"
  shows "(r = None \<longrightarrow> paced q' (log w')) \<and> int (max_run (log w')) \<le> injectBurstMax"
  using assms(2,3)
proof (induction n arbitrary: q w)
  case 0
  then show ?case
    by (simp add: paced_def)
next
  case (Suc n)
  have ok: "inj_ok q"
    using Suc.prems(2) by (simp add: paced_def)
  have wr: "log w1 = True # log w" if "env_write env h f w = (e, w1)" for h f e w1
    using assms(1) that unfolding logs_def by (metis snd_conv)
  have sl: "log w2 = False # log w1" if "sleepCtx env d w1 = (r2, w2)" for d w1 r2 w2
    using assms(1) sleepCtx_world[OF that] unfolding logs_def by simp
  from Suc.prems(1) show ?case
  proof (cases rule: write_tries_cases)
    case ended
    then show ?thesis
      using Suc.prems(2) by (simp add: paced_def)
  next
    case sent
    then show ?thesis
      using paced_sent[OF Suc.prems(2)] wr paced_def by metis
  next
    case (paused w1)
    then show ?thesis
      using paced_pause[OF Suc.prems(2) inj_ok_step(1)[OF ok]] wr sl paced_def by metis
  next
    case failed
    then show ?thesis
      using paced_write[OF Suc.prems(2)] wr by (metis option.distinct(1))
  next
    case (interrupted e e' w1)
    then show ?thesis
      using paced_pause[OF Suc.prems(2) inj_ok_step(2)[OF ok]] wr sl paced_def by metis
  next
    case (again e w1 w2)
    then have "paced (inj_full q) (log w2)"
      using paced_pause[OF Suc.prems(2) inj_ok_step(2)[OF ok]] wr sl by metis
    then show ?thesis
      using Suc.IH again by blast
  qed
qed

text \<open>The five ways in which the loop over the targets goes on.\<close>

lemma send_loop_cases:
  assumes "send_loop env opt ifi srcIP n i (ip # ips) q w = (r, w')"
  obtains
    (ended) e where "env_ctx_err env w = Some e" "r = None" "w' = w"
  | (skipped) "env_ctx_err env w = None" "to4 ip = []"
      "send_loop env opt ifi srcIP n (i + 1) ips q (progress_at (opt_Progress opt) (i + 1) n w) = (r, w')"
  | (unbuilt) e where "to4 ip \<noteq> []" "r = Some e" "w' = w"
  | (failed) e frame q1 where "to4 ip \<noteq> []" "env_serialize env (arp_request ifi srcIP (to4 ip)) = Inr frame"
      "inj_write env frame q w = ((Some e, q1), w')"
      "r = (if e = Canceled \<or> e = DeadlineExceeded then None else Some e)"
  | (sent) frame q1 w1 where "to4 ip \<noteq> []" "env_serialize env (arp_request ifi srcIP (to4 ip)) = Inr frame"
      "inj_write env frame q w = ((None, q1), w1)"
      "send_loop env opt ifi srcIP n (i + 1) ips q1 (progress_at (opt_Progress opt) (i + 1) n w1) = (r, w')"
proof -
  consider (ctx) e where "env_ctx_err env w = Some e"
    | (six) "env_ctx_err env w = None" "to4 ip = []"
    | (clr) e where "env_ctx_err env w = None" "to4 ip \<noteq> []" "env_clear env w = Some e"
    | (ser) e where "env_ctx_err env w = None" "to4 ip \<noteq> []" "env_clear env w = None"
        "env_serialize env (arp_request ifi srcIP (to4 ip)) = Inl e"
    | (go) frame where "env_ctx_err env w = None" "to4 ip \<noteq> []" "env_clear env w = None"
        "env_serialize env (arp_request ifi srcIP (to4 ip)) = Inr frame"
    by (metis option.exhaust sum.exhaust)
  then show ?thesis
  proof cases
    case ctx
    then have "r = None" "w' = w"
      using assms by simp_all
    then show ?thesis
      using ended ctx by blast
  next
    case six
    then show ?thesis
      using assms skipped by simp
  next
    case clr
    then have "r = Some e" "w' = w"
      using assms by simp_all
    then show ?thesis
      using unbuilt clr by blast
  next
    case ser
    then have "r = Some e" "w' = w"
      using assms by simp_all
    then show ?thesis
      using unbuilt ser by blast
  next
    case go
    obtain err q1 w1 where wr: "inj_write env frame q w = ((err, q1), w1)"
      by (metis surj_pair)
    show ?thesis
    proof (cases err)
      case None
      then have "send_loop env opt ifi srcIP n (i + 1) ips q1 (progress_at (opt_Progress opt) (i + 1) n w1) = (r, w')"
        using assms go wr by simp
      then show ?thesis
        using sent go wr None by blast
    next
      case (Some e)
      then have "w1 = w'" "r = (if e = Canceled \<or> e = DeadlineExceeded then None else Some e)"
        using assms go wr by simp_all
      then show ?thesis
        using failed go wr Some by blast
    qed
  qed
qed

lemma send_loop_max_run:
  assumes "logs env log" "keeps opt log"
  shows "send_loop env opt ifi srcIP n i ips q w = (r, w') \<Longrightarrow> paced q (log w) \<Longrightarrow>
    int (max_run (log w')) \<le> injectBurstMax"
proof (induction ips arbitrary: i q w)
  case Nil
  then show ?case
    by (simp add: paced_def)
next
  case (Cons ip ips)
  have p: "log (progress_at (opt_Progress opt) a n w) = log w" for a w
    using assms(2) by (simp add: keeps_def)
  have base: "int (max_run (log w)) \<le> injectBurstMax"
    using Cons.prems(2) by (simp add: paced_def)
  note one = write_tries_paced[OF assms(1) _ Cons.prems(2), folded inj_write_def]
  from Cons.prems(1) show ?case
  proof (cases rule: send_loop_cases)
    case (sent frame q1 w1)
    then show ?thesis
      using Cons.IH[OF sent(4)] p one[of frame _ None] by (simp add: inj_write_def)
  next
    case (failed e frame q1)
    then show ?thesis
      using one by (metis inj_write_def)
  qed (use base Cons.IH Cons.prems(2) p in auto)
qed

subsection \<open>Delivery\<close>

text \<open>An environment that records what the driver took, and never ends the context.\<close>

definition records :: "'w pcap_env \<Rightarrow> ('w \<Rightarrow> byte list list) \<Rightarrow> bool" where
  "records env out \<longleftrightarrow>
     (\<forall>w. env_ctx_err env w = None) \<and>
     (\<forall>h f w. fst (env_write env h f w) \<notin> {Some Canceled, Some DeadlineExceeded}) \<and>
     (\<forall>h f w. out (snd (env_write env h f w)) = (if fst (env_write env h f w) = None then out w @ [f] else out w)) \<and>
     (\<forall>d w. out (snd (env_wait env d w)) = out w)"

lemma write_tries_records:
  assumes "records env out" "write_tries env frame n q w = ((r, q'), w')"
  shows "out w' = (if r = None then out w @ [frame] else out w) \<and> r \<notin> {Some Canceled, Some DeadlineExceeded}"
  using assms(2)
proof (induction n arbitrary: q w)
  case 0
  then show ?case by auto
next
  case (Suc n)
  have wr: "out w1 = (if e = None then out w @ [f] else out w) \<and> e \<notin> {Some Canceled, Some DeadlineExceeded}"
    if "env_write env h f w = (e, w1)" for h f e w1 w
    using assms(1) that unfolding records_def by (metis fst_conv snd_conv)
  have sl: "r2 = None \<and> out w2 = out w1" if "sleepCtx env d w1 = (r2, w2)" for d w1 r2 w2
    using assms(1) sleepCtx_world[OF that] that unfolding records_def
    by (auto simp: sleepCtx_def Let_def split: prod.splits)
  from Suc.prems show ?case
  proof (cases rule: write_tries_cases)
    case (again e w1 w2)
    then have "out w2 = out w"
      using wr[of "inj_tx q" frame w "Some e" w1] sl by simp
    then show ?thesis
      using Suc.IH[OF again(4)] by simp
  next
    case (failed e)
    then show ?thesis
      using wr[of "inj_tx q" frame w "Some e" w'] by auto
  next
    case ended
    then show ?thesis
      using assms(1) by (simp add: records_def)
  next
    case sent
    then show ?thesis
      using wr[of "inj_tx q" frame w None w'] by auto
  next
    case (paused w1)
    then show ?thesis
      using wr[of "inj_tx q" frame w None w1] sl by auto
  next
    case (interrupted e e' w1)
    then show ?thesis
      using sl by blast
  qed
qed

text \<open>The frames a complete sweep sends: one request for each IPv4 target, in order.\<close>

definition sweep_frames :: "'w pcap_env \<Rightarrow> interface \<Rightarrow> ip \<Rightarrow> ip list \<Rightarrow> byte list list" where
  "sweep_frames env ifi srcIP ips =
     map (\<lambda>ip. projr (env_serialize env (arp_request ifi srcIP ip))) (filter (\<lambda>ip. ip \<noteq> []) (map to4 ips))"

lemma send_loop_records:
  assumes "records env out" "keeps opt out"
  shows "send_loop env opt ifi srcIP n i ips q w = (None, w') \<Longrightarrow>
    out w' = out w @ sweep_frames env ifi srcIP ips"
proof (induction ips arbitrary: i q w)
  case Nil
  then show ?case
    by (simp add: sweep_frames_def)
next
  case (Cons ip ips)
  have p: "out (progress_at (opt_Progress opt) a n w) = out w" for a w
    using assms(2) by (simp add: keeps_def)
  from Cons.prems show ?case
  proof (cases rule: send_loop_cases)
    case ended
    then show ?thesis
      using assms(1) by (simp add: records_def)
  next
    case skipped
    then show ?thesis
      using Cons.IH p by (simp add: sweep_frames_def)
  next
    case (failed e frame q1)
    then have "e = Canceled \<or> e = DeadlineExceeded"
      by (metis option.distinct(1))
    then show ?thesis
      using write_tries_records[OF assms(1) failed(3)[unfolded inj_write_def]] by auto
  next
    case (sent frame q1 w1)
    then have "out w1 = out w @ [frame]"
      using write_tries_records[OF assms(1)] unfolding inj_write_def by (metis (full_types))
    then show ?thesis
      using Cons.IH[OF sent(4)] p sent(1,2) by (simp add: sweep_frames_def)
  qed simp
qed

subsection \<open>The replies\<close>

definition replies :: "hwaddr \<Rightarrow> packet list \<Rightarrow> (ip \<times> hwaddr) list" where
  "replies selfMAC ps = List.map_filter (accept_reply selfMAC) ps"

lemma replies_Cons:
  "replies self (p # ps) = (case accept_reply self p of None \<Rightarrow> replies self ps | Some r \<Rightarrow> r # replies self ps)"
  by (simp add: replies_def map_filter_simps split: option.splits)

lemma accept_reply_ok:
  "accept_reply self p = Some (ip, mac) \<Longrightarrow> is_ip4 ip \<and> 6 \<le> length mac \<and> mac \<noteq> self"
  by (auto simp: accept_reply_def is_ip4_def split: packet.splits if_splits)

lemma replies_ok: "(ip, mac) \<in> set (replies self ps) \<Longrightarrow> is_ip4 ip \<and> 6 \<le> length mac \<and> mac \<noteq> self"
  by (induction ps) (auto simp: replies_Cons replies_def[of self "[]"] map_filter_simps
      dest: accept_reply_ok split: option.splits)

definition seen_of :: "(ip \<times> hwaddr) list \<Rightarrow> (string, hwaddr) gomap \<Rightarrow> (string, hwaddr) gomap" where
  "seen_of rs seen = foldl (\<lambda>seen (ip, mac). note_reply ip mac seen) seen rs"

lemma readARP_replies: "readARP self ps note_reply seen = seen_of (replies self ps) seen"
  by (induction ps arbitrary: seen)
    (auto simp: replies_Cons seen_of_def replies_def[of self "[]"] map_filter_simps split: option.splits)

lemma seen_of_get:
  "map_get (seen_of rs seen) k =
     (case map_get seen k of Some m \<Rightarrow> Some m | None \<Rightarrow> map_of (map (\<lambda>(ip, mac). (ip_string ip, mac)) rs) k)"
proof (induction rs arbitrary: seen)
  case Nil
  then show ?case
    by (simp add: seen_of_def split: option.splits)
next
  case (Cons r rs)
  obtain ip mac where r: "r = (ip, mac)"
    by fastforce
  have "seen_of (r # rs) seen = seen_of rs (note_reply ip mac seen)"
    by (simp add: seen_of_def r)
  then show ?case
    by (simp add: Cons.IH r note_reply_def Let_def map_get_put split: option.splits)
qed

lemma seen_of_distinct: "distinct_keys seen \<Longrightarrow> distinct_keys (seen_of rs seen)"
  by (induction rs arbitrary: seen) (auto simp: seen_of_def note_reply_def Let_def split: prod.splits)

lemma map_of_by_ip:
  assumes "list_all (\<lambda>r. is_ip4 (fst r)) rs" "is_ip4 ip"
  shows "map_of (map (\<lambda>(ip, mac). (ip_string ip, mac)) rs) (ip_string ip) = map_of rs ip"
  using assms(1)
proof (induction rs)
  case Nil
  then show ?case by simp
next
  case (Cons r rs)
  obtain ip' mac where r: "r = (ip', mac)"
    by fastforce
  then have "is_ip4 ip'"
    using Cons.prems by simp
  then have "ip_string ip = ip_string ip' \<longleftrightarrow> ip = ip'"
    using ipkey.key_inj assms(2) by blast
  then show ?case
    using Cons by (simp add: r)
qed

lemma seen_entries:
  assumes "list_all (\<lambda>r. is_ip4 (fst r)) rs"
  shows "(k, m) \<in> set (seen_of rs []) \<longleftrightarrow> (\<exists>ip. k = ip_string ip \<and> map_of rs ip = Some m)"
proof -
  have "(k, m) \<in> set (seen_of rs []) \<longleftrightarrow> map_get (seen_of rs []) k = Some m"
    using map_get_Some_iff[OF seen_of_distinct[of "[]" rs]] by simp
  also have "\<dots> \<longleftrightarrow> map_of (map (\<lambda>(ip, mac). (ip_string ip, mac)) rs) k = Some m"
    by (simp add: seen_of_get)
  also have "\<dots> \<longleftrightarrow> (\<exists>ip. k = ip_string ip \<and> map_of rs ip = Some m)"
  proof
    assume l: "map_of (map (\<lambda>(ip, mac). (ip_string ip, mac)) rs) k = Some m"
    then obtain ip where ip: "k = ip_string ip" "(ip, m) \<in> set rs"
      by (auto dest!: map_of_SomeD)
    then have "map_of rs ip = Some m"
      using l map_of_by_ip[OF assms, of ip] assms by (auto simp: list_all_iff)
    then show "\<exists>ip. k = ip_string ip \<and> map_of rs ip = Some m"
      using ip by blast
  next
    assume "\<exists>ip. k = ip_string ip \<and> map_of rs ip = Some m"
    then obtain ip where ip: "k = ip_string ip" "map_of rs ip = Some m"
      by blast
    then show "map_of (map (\<lambda>(ip, mac). (ip_string ip, mac)) rs) k = Some m"
      using map_of_by_ip[OF assms, of ip] assms map_of_SomeD[OF ip(2)] by (auto simp: list_all_iff)
  qed
  finally show ?thesis .
qed

lemma arp_devices_map:
  assumes "\<forall>(k, m) \<in> set es. \<exists>ip. is_ip4 ip \<and> k = ip_string ip"
  shows "arp_devices es = map (\<lambda>(k, m). arp_device (to4 (parse_ip k)) m) es"
  using assms
proof (induction es)
  case Nil
  then show ?case
    by (simp add: arp_devices_def map_filter_simps)
next
  case (Cons e es)
  obtain k m where e: "e = (k, m)"
    by fastforce
  then obtain ip where ip: "is_ip4 ip" "k = ip_string ip"
    using Cons.prems by auto
  then have "to4 (parse_ip k) = ip" "ip \<noteq> []"
    using ipkey.unkey_key by (auto simp: is_ip4_def)
  then show ?case
    using Cons e by (simp add: arp_devices_def map_filter_simps Let_def)
qed

lemma arp_device_fields [simp]:
  "IP (arp_device ip mac) = ip" "MAC (arp_device ip mac) = mac" "Vendor (arp_device ip mac) = Lookup mac"
  "Status (arp_device ip mac) = StatusUp" "Type (arp_device ip mac) = InferType (Lookup mac)"
  "Hostname (arp_device ip mac) = []" "SysInfo (arp_device ip mac) = zero_info"
  by (simp_all add: arp_device_def zero_device_def Let_def)

lemma arp_devices_seen:
  assumes "map_order iter" "list_all (\<lambda>r. is_ip4 (fst r)) rs"
  shows "set (arp_devices (iter (seen_of rs []))) = {arp_device ip mac |ip mac. map_of rs ip = Some mac}"
    "distinct (map IP (arp_devices (iter (seen_of rs []))))"
proof -
  let ?es = "iter (seen_of rs [])"
  have set: "(k, m) \<in> set ?es \<longleftrightarrow> (\<exists>ip. k = ip_string ip \<and> map_of rs ip = Some m)" for k m
    using seen_entries[OF assms(2)] map_order_set[OF assms(1)] by auto
  have keys: "\<exists>ip. is_ip4 ip \<and> k = ip_string ip" if "(k, m) \<in> set ?es" for k m
    using that assms(2) map_of_SomeD unfolding set list_all_iff by fastforce
  have map: "arp_devices ?es = map (\<lambda>(k, m). arp_device (to4 (parse_ip k)) m) ?es"
    by (rule arp_devices_map) (use keys in auto)
  have unkey: "to4 (parse_ip (ip_string ip)) = ip" if "map_of rs ip = Some m" for ip m
    using ipkey.unkey_key assms(2) map_of_SomeD[OF that] by (auto simp: list_all_iff)
  show "set (arp_devices ?es) = {arp_device ip mac |ip mac. map_of rs ip = Some mac}"
  proof (intro set_eqI iffI)
    fix d
    assume "d \<in> set (arp_devices ?es)"
    then obtain k m where "(k, m) \<in> set ?es" "d = arp_device (to4 (parse_ip k)) m"
      unfolding map by auto
    then show "d \<in> {arp_device ip mac |ip mac. map_of rs ip = Some mac}"
      unfolding set using unkey by fastforce
  next
    fix d
    assume "d \<in> {arp_device ip mac |ip mac. map_of rs ip = Some mac}"
    then obtain ip m where ip: "map_of rs ip = Some m" "d = arp_device ip m"
      by blast
    then have "(ip_string ip, m) \<in> set ?es"
      unfolding set by blast
    then show "d \<in> set (arp_devices ?es)"
      unfolding map ip(2) set_map by (rule image_eqI[rotated]) (simp add: unkey[OF ip(1)])
  qed
  have "inj_on (\<lambda>k. to4 (parse_ip k)) (fst ` set ?es)"
  proof (rule inj_onI)
    fix k l
    assume kl: "k \<in> fst ` set ?es" "l \<in> fst ` set ?es" "to4 (parse_ip k) = to4 (parse_ip l)"
    then obtain m m' where "(k, m) \<in> set ?es" "(l, m') \<in> set ?es"
      by auto
    from keys[OF this(1)] keys[OF this(2)] obtain x y where
      "is_ip4 x" "k = ip_string x" "is_ip4 y" "l = ip_string y"
      by blast
    then show "k = l"
      using kl(3) ipkey.unkey_key by simp
  qed
  moreover have "distinct (map fst ?es)"
    using map_get_order[OF assms(1) seen_of_distinct[of "[]" rs]] by (simp add: distinct_keys_def)
  ultimately have "distinct (map (\<lambda>k. to4 (parse_ip k)) (map fst ?es))"
    unfolding distinct_map[of _ "map fst ?es"] by simp
  then show "distinct (map IP (arp_devices ?es))"
    unfolding map by (simp add: comp_def case_prod_unfold)
qed

subsection \<open>Handles\<close>

text \<open>An account of the open capture handles: a successful open adds one, a close takes one away,
  and nothing else touches it.\<close>

definition accounts :: "'w pcap_env \<Rightarrow> ('w \<Rightarrow> handle \<Rightarrow> int) \<Rightarrow> bool" where
  "accounts env bal \<longleftrightarrow>
     (\<forall>h n w. bal (snd (env_open env h n w)) =
        (if fst (env_open env h n w) = None then (bal w)(h := bal w h + 1) else bal w)) \<and>
     (\<forall>h w. bal (env_close env h w) = (bal w)(h := bal w h - 1)) \<and>
     (\<forall>t w. bal (snd (env_filter env t w)) = bal w) \<and>
     (\<forall>d w. bal (snd (env_wait env d w)) = bal w) \<and>
     (\<forall>h f w. bal (snd (env_write env h f w)) = bal w)"

lemma write_tries_accounts:
  assumes "accounts env bal"
  shows "write_tries env frame n q w = ((r, q'), w') \<Longrightarrow> bal w' = bal w"
proof (induction n arbitrary: q w)
  case 0
  then show ?case by simp
next
  case (Suc n)
  have wr: "bal w1 = bal w" if "env_write env h f w = (e, w1)" for h f e w1 w
    using assms that unfolding accounts_def by (metis snd_conv)
  have sl: "bal w2 = bal w1" if "sleepCtx env d w1 = (r2, w2)" for d w1 r2 w2
    using assms sleepCtx_world[OF that] unfolding accounts_def by simp
  from Suc.prems show ?case
    by (cases rule: write_tries_cases) (auto dest!: wr sl Suc.IH)
qed

lemma send_loop_accounts:
  assumes "accounts env bal" "keeps opt bal"
  shows "send_loop env opt ifi srcIP n i ips q w = (r, w') \<Longrightarrow> bal w' = bal w"
proof (induction ips arbitrary: i q w)
  case Nil
  then show ?case by simp
next
  case (Cons ip ips)
  have p: "bal (progress_at (opt_Progress opt) a n w) = bal w" for a w
    using assms(2) by (simp add: keeps_def)
  from Cons.prems show ?case
    by (cases rule: send_loop_cases)
      (auto simp: p inj_write_def dest!: write_tries_accounts[OF assms(1)] Cons.IH)
qed

lemma keeps_defaults: "keeps opt f \<Longrightarrow> keeps (defaults opt) f"
  by (simp add: keeps_def defaults_def Let_def)

lemma closeHandles_accounts:
  "accounts env bal \<Longrightarrow> bal (closeHandles env tx w) =
    (if tx = RxHandle then (bal w)(RxHandle := bal w RxHandle - 1)
     else (bal w)(RxHandle := bal w RxHandle - 1, TxHandle := bal w TxHandle - 1))"
  by (simp add: accounts_def closeHandles_def Let_def)

text \<open>The ways in which a scan that gets to the capture handles ends.\<close>

lemma Scan_cases:
  assumes "Scan iter env ifi srcIP targets opt w = ((devs, r), w')"
  obtains
    (early) "w' = w" "devs = []" "r \<noteq> None \<or> targets = []"
  | (no_rx) e where "env_open env RxHandle (if_name ifi) w = (Some e, w')" "devs = []" "r \<noteq> None"
  | (no_filter) w1 w2 w3 tx e txErr where "env_open env RxHandle (if_name ifi) w = (None, w1)"
      "env_open env TxHandle (if_name ifi) w1 = (txErr, w2)" "tx = (if txErr \<noteq> None then RxHandle else TxHandle)"
      "env_filter env ''arp'' w2 = (Some e, w3)" "w' = closeHandles env tx w3" "devs = []" "r \<noteq> None"
  | (swept) w1 w2 w3 w4 w5 tx txErr sendErr ended where "env_open env RxHandle (if_name ifi) w = (None, w1)"
      "env_open env TxHandle (if_name ifi) w1 = (txErr, w2)" "tx = (if txErr \<noteq> None then RxHandle else TxHandle)"
      "env_filter env ''arp'' w2 = (None, w3)"
      "send_loop env (defaults opt) ifi (to4 srcIP) (int (length targets)) 0 targets (newInjector tx) w3 = (sendErr, w4)"
      "env_wait env (opt_Timeout (defaults opt)) w4 = (ended, w5)" "w' = closeHandles env tx w5"
      "case sendErr of
         None \<Rightarrow> r = None \<and> devs = arp_devices (iter (seen_of (replies (if_hwaddr ifi) (env_packets env w')) []))
       | Some e \<Rightarrow> r = Some (''send ARP: '' @ error_text e) \<and> devs = []"
proof (cases "to4 srcIP = [] \<or> if_hwaddr ifi = [] \<or> targets = []")
  case True
  then show ?thesis
    using assms by (intro early) (auto simp: Scan_def Let_def split: if_splits)
next
  case False
  obtain err w1 where o1: "env_open env RxHandle (if_name ifi) w = (err, w1)"
    by fastforce
  obtain txErr w2 where o2: "env_open env TxHandle (if_name ifi) w1 = (txErr, w2)"
    by fastforce
  define tx where "tx = (if txErr \<noteq> None then RxHandle else TxHandle)"
  obtain ferr w3 where fl: "env_filter env ''arp'' w2 = (ferr, w3)"
    by fastforce
  obtain sendErr w4 where sd: "send_loop env (defaults opt) ifi (to4 srcIP) (int (length targets)) 0 targets
      (newInjector tx) w3 = (sendErr, w4)"
    by fastforce
  obtain ended w5 where wt: "env_wait env (opt_Timeout (defaults opt)) w4 = (ended, w5)"
    by fastforce
  show ?thesis
  proof (cases err)
    case (Some e)
    then show ?thesis
      using assms False o1 by (intro no_rx) (auto simp: Scan_def Let_def)
  next
    case err: None
    show ?thesis
    proof (cases ferr)
      case (Some e)
      then show ?thesis
        using assms False o1 o2 fl err by (intro no_filter[OF _ _ tx_def]) (auto simp: Scan_def Let_def tx_def)
    next
      case None
      have "Scan iter env ifi srcIP targets opt w =
          (case sendErr of
             Some e \<Rightarrow> (([], Some (''send ARP: '' @ error_text e)), closeHandles env tx w5)
           | None \<Rightarrow> ((arp_devices (iter (seen_of (replies (if_hwaddr ifi)
                 (env_packets env (closeHandles env tx w5))) [])), None), closeHandles env tx w5))"
        using False o1 o2 fl sd wt err None unfolding tx_def
        by (cases txErr) (simp_all add: Scan_def Let_def readARP_replies)
      then show ?thesis
        using assms o1 o2 fl sd wt err None
        by (intro swept[OF _ _ tx_def _ sd wt]) (auto split: option.splits)
    qed
  qed
qed

lemma Scan_no_error:
  assumes "Scan iter env ifi srcIP targets opt w = ((devs, None), w')" "targets \<noteq> []"
  shows "devs = arp_devices (iter (seen_of (replies (if_hwaddr ifi) (env_packets env w')) []))"
  using assms(1)
proof (cases rule: Scan_cases)
  case (swept w1 w2 w3 w4 w5 tx txErr sendErr ended)
  then show ?thesis
    by (cases sendErr) simp_all
qed (use assms(2) in auto)

lemma replies_list: "list_all (\<lambda>r. is_ip4 (fst r)) (replies self ps)"
  using replies_ok by (force simp: list_all_iff)

text \<open>What the open, the filter and the close of a handle leave alone.\<close>

definition leaves :: "'w pcap_env \<Rightarrow> ('w \<Rightarrow> 'a) \<Rightarrow> bool" where
  "leaves env f \<longleftrightarrow>
     (\<forall>h n w. f (snd (env_open env h n w)) = f w) \<and> (\<forall>t w. f (snd (env_filter env t w)) = f w) \<and>
     (\<forall>h w. f (env_close env h w) = f w)"

lemma closeHandles_leaves: "leaves env f \<Longrightarrow> f (closeHandles env tx w) = f w"
  by (simp add: leaves_def closeHandles_def Let_def)

lemma leaves_open: "leaves env f \<Longrightarrow> env_open env h n w = (e, w1) \<Longrightarrow> f w1 = f w"
  unfolding leaves_def by (metis snd_conv)

lemma leaves_filter: "leaves env f \<Longrightarrow> env_filter env t w = (e, w1) \<Longrightarrow> f w1 = f w"
  unfolding leaves_def by (metis snd_conv)

lemmas leaves_all = closeHandles_leaves leaves_open leaves_filter

lemma newInjector_ok: "inj_ok (newInjector tx)"
  by (rule injector.inv_start) blast

subsection \<open>Properties\<close>

record demo_world =
  dw_out :: "byte list list"
  dw_log :: "bool list"
  dw_open :: "handle \<Rightarrow> int"

definition demo_reply :: "byte list \<Rightarrow> byte list \<Rightarrow> packet" where
  "demo_reply ip mac = ARPLayer \<lparr>eth_SrcMAC = mac, eth_DstMAC = [2, 0, 0, 0, 0, 1], arp_Operation = ARPReply,
     arp_SourceHw = mac, arp_SourceProt = ip, arp_DstHw = [2, 0, 0, 0, 0, 1], arp_DstProt = [192, 168, 7, 10]\<rparr>"

text \<open>A ring that is full for the first frame.\<close>

definition demo_env :: "demo_world pcap_env" where
  "demo_env = \<lparr>env_ctx_err = (\<lambda>w. None),
     env_wait = (\<lambda>d w. (False, w\<lparr>dw_log := False # dw_log w\<rparr>)),
     env_open = (\<lambda>h n w. (None, w\<lparr>dw_open := (dw_open w)(h := dw_open w h + 1)\<rparr>)),
     env_filter = (\<lambda>t w. (None, w)),
     env_close = (\<lambda>h w. w\<lparr>dw_open := (dw_open w)(h := dw_open w h - 1)\<rparr>),
     env_clear = (\<lambda>w. None),
     env_serialize = (\<lambda>f. Inr (arp_SourceProt f @ arp_DstProt f)),
     env_write = (\<lambda>h f w. if dw_log w = [] then (Some (OtherError True []), w\<lparr>dw_log := [True]\<rparr>)
        else (None, w\<lparr>dw_out := dw_out w @ [f], dw_log := True # dw_log w\<rparr>)),
     env_packets = (\<lambda>w. [demo_reply [192, 168, 7, 9] [0, 27, 84, 1, 2, 3], NilPacket,
        demo_reply [192, 168, 7, 9] [0, 27, 84, 9, 9, 9], demo_reply [192, 168, 7, 10] [2, 0, 0, 0, 0, 1]])\<rparr>"

definition demo_start :: demo_world where
  "demo_start = \<lparr>dw_out = [], dw_log = [], dw_open = (\<lambda>h. 0)\<rparr>"

definition demo_opts :: "demo_world arp_options" where
  "demo_opts = \<lparr>opt_Workers = 0, opt_Timeout = 0, opt_Progress = None\<rparr>"

definition demo_scan :: "(device list \<times> string option) \<times> demo_world" where
  "demo_scan = Scan (\<lambda>m. m) demo_env (ln_interface demo_net) (ln_ip demo_net)
     [[192, 168, 7, 9], [192, 168, 7, 11]] demo_opts demo_start"

lemmas demo_defs = demo_scan_def demo_env_def demo_net_def demo_opts_def demo_start_def Scan_def defaults_def
  newInjector_def inj_write_def injectRetryMax_def injectBurstStart_def inj_sent_def inj_full_def sleepCtx_def
  isNoBuffer_def arp_request_def closeHandles_def progress_at_def Let_def injectBurstMin_def

lemma demo_scan_result:
  "snd (fst demo_scan) = None"
  "dw_out (snd demo_scan) = [[192, 168, 7, 10, 192, 168, 7, 9], [192, 168, 7, 10, 192, 168, 7, 11]]"
  "dw_log (snd demo_scan) = [False, True, True, False, True]"
  by (simp_all add: demo_defs numeral_eq_Suc)

lemma demo_scan_run:
  obtains devs w' where "demo_scan = ((devs, None), w')" "w' = snd demo_scan"
  using demo_scan_result(1) by (metis prod.collapse)

lemma demo_env_laws:
  "records demo_env dw_out" "leaves demo_env dw_out" "keeps demo_opts dw_out"
  "logs demo_env dw_log" "leaves demo_env dw_log" "keeps demo_opts dw_log"
  "accounts demo_env dw_open" "keeps demo_opts dw_open"
  by (auto simp: records_def leaves_def logs_def accounts_def keeps_def demo_env_def demo_opts_def progress_at_def)

text \<open>C4.  The devices of a scan that ends without an error: one per address that answered with an
  acceptable reply (an ARP reply, four address bytes, a hardware address of six bytes or more that is
  not ours), with the hardware address of its first reply, the vendor of that address and the role of
  that vendor.\<close>

theorem Scan_devices:
  assumes "map_order iter" "targets \<noteq> []"
    and "Scan iter env ifi srcIP targets opt w = ((devs, None), w')"
  shows "set devs = {arp_device ip mac |ip mac. map_of (replies (if_hwaddr ifi) (env_packets env w')) ip = Some mac} \<and>
    distinct (map IP devs) \<and>
    (\<forall>d \<in> set devs. is_ip4 (IP d) \<and> 6 \<le> length (MAC d) \<and> MAC d \<noteq> if_hwaddr ifi \<and> Status d = StatusUp \<and>
       Vendor d = Lookup (MAC d) \<and> Type d = InferType (Vendor d))"
proof -
  let ?rs = "replies (if_hwaddr ifi) (env_packets env w')"
  have devs: "devs = arp_devices (iter (seen_of ?rs []))"
    by (rule Scan_no_error[OF assms(3,2)])
  note rows = arp_devices_seen[OF assms(1) replies_list[of "if_hwaddr ifi" "env_packets env w'"], folded devs]
  have "is_ip4 (IP d) \<and> 6 \<le> length (MAC d) \<and> MAC d \<noteq> if_hwaddr ifi \<and> Status d = StatusUp \<and>
       Vendor d = Lookup (MAC d) \<and> Type d = InferType (Vendor d)" if "d \<in> set devs" for d
  proof -
    have "d \<in> {arp_device ip mac |ip mac. map_of ?rs ip = Some mac}"
      using that unfolding rows(1) .
    then obtain ip mac where d: "map_of ?rs ip = Some mac" "d = arp_device ip mac"
      by blast
    show ?thesis
      using replies_ok[OF map_of_SomeD[OF d(1)]] unfolding d(2) by simp
  qed
  then show ?thesis
    using rows by blast
qed

theorem Scan_devices_witness:
  "\<exists>devs. fst demo_scan = (devs, None) \<and> arp_device [192, 168, 7, 9] [0, 27, 84, 1, 2, 3] \<in> set devs \<and> length devs = 1"
proof -
  obtain devs w' where run: "demo_scan = ((devs, None), w')"
    by (rule demo_scan_run)
  have rs: "map_of (replies (if_hwaddr (ln_interface demo_net)) (env_packets demo_env w')) =
      [[192, 168, 7, 9] \<mapsto> [0, 27, 84, 1, 2, 3]]"
    by (rule ext) (simp add: replies_def demo_net_def demo_env_def map_filter_simps accept_reply_def demo_reply_def)
  have "set devs = {arp_device [192, 168, 7, 9] [0, 27, 84, 1, 2, 3]} \<and> distinct (map IP devs)"
    using Scan_devices[OF map_order_id _ run[unfolded demo_scan_def]] unfolding rs by auto
  then have "set devs = {arp_device [192, 168, 7, 9] [0, 27, 84, 1, 2, 3]}" "length devs = 1"
    using distinct_card[of devs] by (auto simp: distinct_map)
  then show ?thesis
    by (intro exI[of _ devs]) (simp only: run fst_conv, simp)
qed

text \<open>C7.  A sweep that reports no error and was not cancelled has sent exactly one ARP request for
  every IPv4 target, in the order of the targets: a request that the full ring refused was sent again.\<close>

theorem Scan_sends_all:
  assumes "records env out" "leaves env out" "keeps opt out" "targets \<noteq> []"
    and "Scan iter env ifi srcIP targets opt w = ((devs, None), w')"
  shows "out w' = out w @ sweep_frames env ifi (to4 srcIP) targets"
  using assms(5)
proof (cases rule: Scan_cases)
  case (swept w1 w2 w3 w4 w5 tx txErr sendErr ended)
  then have "sendErr = None"
    by (cases sendErr) simp_all
  then have "out w4 = out w3 @ sweep_frames env ifi (to4 srcIP) targets"
    using send_loop_records[OF assms(1) keeps_defaults[OF assms(3)]] swept(5) by blast
  moreover have "out w3 = out w"
    using leaves_open[OF assms(2) swept(1)] leaves_open[OF assms(2) swept(2)]
      leaves_filter[OF assms(2) swept(4)] by simp
  moreover have "out w5 = out w4"
    using assms(1) swept(6) unfolding records_def by (metis snd_conv)
  ultimately show ?thesis
    using swept(7) closeHandles_leaves[OF assms(2)] by metis
qed (use assms(4) in auto)

theorem Scan_sends_all_witness:
  "sweep_frames demo_env (ln_interface demo_net) (to4 (ln_ip demo_net)) [[192, 168, 7, 9], [192, 168, 7, 11]] =
   [[192, 168, 7, 10, 192, 168, 7, 9], [192, 168, 7, 10, 192, 168, 7, 11]]"
proof -
  obtain devs w' where run: "demo_scan = ((devs, None), w')" "w' = snd demo_scan"
    by (rule demo_scan_run)
  have "dw_out w' = dw_out demo_start @
      sweep_frames demo_env (ln_interface demo_net) (to4 (ln_ip demo_net)) [[192, 168, 7, 9], [192, 168, 7, 11]]"
    by (rule Scan_sends_all[OF demo_env_laws(1-3) _ run(1)[unfolded demo_scan_def]]) simp
  then show ?thesis
    unfolding run(2) demo_scan_result by (simp add: demo_start_def)
qed

text \<open>C19.  Pacing: however the driver answers, no more than 32 frames are handed to it between two
  pauses of the sweep.\<close>

theorem Scan_paced:
  assumes "logs env log" "leaves env log" "keeps opt log" "log w = []"
    and "Scan iter env ifi srcIP targets opt w = ((devs, r), w')"
  shows "max_run (log w') \<le> 32"
  using assms(5)
proof (cases rule: Scan_cases)
  case early
  then show ?thesis
    using assms(4) by simp
next
  case no_rx
  then show ?thesis
    using leaves_open[OF assms(2)] assms(4) by (metis max_run.simps(1) zero_le)
next
  case no_filter
  then show ?thesis
    using leaves_open[OF assms(2)] leaves_filter[OF assms(2)] closeHandles_leaves[OF assms(2)] assms(4)
    by (metis max_run.simps(1) zero_le)
next
  case (swept w1 w2 w3 w4 w5 tx txErr sendErr ended)
  have "log w3 = []"
    using leaves_open[OF assms(2) swept(1)] leaves_open[OF assms(2) swept(2)]
      leaves_filter[OF assms(2) swept(4)] assms(4) by simp
  then have "paced (newInjector tx) (log w3)"
    using newInjector_ok by (simp add: paced_def newInjector_def injectBurstMax_def)
  then have "int (max_run (log w4)) \<le> injectBurstMax"
    using send_loop_max_run[OF assms(1) keeps_defaults[OF assms(3)] swept(5)] by blast
  moreover have "log w' = False # log w4"
    using assms(1) swept(6,7) closeHandles_leaves[OF assms(2)] unfolding logs_def by (metis snd_conv)
  ultimately show ?thesis
    by (simp add: injectBurstMax_def)
qed

theorem Scan_paced_witness: "max_run (dw_log (snd demo_scan)) \<le> 32"
proof -
  obtain devs w' where run: "demo_scan = ((devs, None), w')" "w' = snd demo_scan"
    by (rule demo_scan_run)
  show ?thesis
    unfolding run(2)[symmetric]
    by (rule Scan_paced[OF demo_env_laws(4-6) _ run(1)[unfolded demo_scan_def]]) (simp add: demo_start_def)
qed

text \<open>C18.  Every capture handle that a scan opens is closed again, once, on every path out of it.\<close>

theorem Scan_closes_handles:
  assumes "accounts env bal" "keeps opt bal"
    and "Scan iter env ifi srcIP targets opt w = ((devs, r), w')"
  shows "bal w' = bal w"
proof -
  have op: "bal w1 = (if e = None then (bal w)(h := bal w h + 1) else bal w)" if "env_open env h n w = (e, w1)" for h n e w w1
    using assms(1) that unfolding accounts_def by (metis fst_conv snd_conv)
  have fl: "bal w1 = bal w" if "env_filter env t w = (e, w1)" for t e w w1
    using assms(1) that unfolding accounts_def by (metis snd_conv)
  have wt: "bal w1 = bal w" if "env_wait env d w = (b, w1)" for d b w w1
    using assms(1) that unfolding accounts_def by (metis snd_conv)
  from assms(3) show ?thesis
  proof (cases rule: Scan_cases)
    case early
    then show ?thesis by simp
  next
    case no_rx
    then show ?thesis
      using op by fastforce
  next
    case (no_filter w1 w2 w3 tx e txErr)
    then show ?thesis
      using op[OF no_filter(1)] op[OF no_filter(2)] fl[OF no_filter(4)] closeHandles_accounts[OF assms(1), of tx w3]
      by (cases txErr) (simp_all add: fun_upd_twist)
  next
    case (swept w1 w2 w3 w4 w5 tx txErr sendErr ended)
    have "bal w5 = bal w3"
      using send_loop_accounts[OF assms(1) keeps_defaults[OF assms(2)] swept(5)] wt[OF swept(6)] by simp
    then show ?thesis
      using op[OF swept(1)] op[OF swept(2)] fl[OF swept(4)] closeHandles_accounts[OF assms(1), of tx w5] swept(3,7)
      by (cases txErr) (simp_all add: fun_upd_twist)
  qed
qed

theorem Scan_closes_handles_witness: "dw_open (snd demo_scan) = (\<lambda>h. 0)"
proof -
  obtain devs w' where run: "demo_scan = ((devs, None), w')" "w' = snd demo_scan"
    by (rule demo_scan_run)
  have "dw_open w' = dw_open demo_start"
    by (rule Scan_closes_handles[OF demo_env_laws(7,8) run(1)[unfolded demo_scan_def]])
  then show ?thesis
    by (simp add: run(2) demo_start_def)
qed

lemma backoff_eq:
  "backoff try = min injectBackoffMax (signed_take_bit 63 (4000000 * 2 ^ try))"
proof -
  have "push_bit try (4 :: 64 word) * 1000000 = word_of_int (4000000 * 2 ^ try)"
    by (simp add: push_bit_eq_mult)
  then have "sint (push_bit try (4 :: 64 word) * 1000000) = signed_take_bit 63 (4000000 * 2 ^ try)"
    by (simp only: sint_sbintrunc') simp
  then show ?thesis
    by (simp add: backoff_def Let_def)
qed

text \<open>The pause before a retry is between 4 and 50 milliseconds for the first 42 tries; from
  then on the shift overflows: it is negative for the next one, and zero for the last eight, so
  that these follow each other without a pause.\<close>

lemma backoff_range:
  "(try < 42 \<longrightarrow> 4 * 1000000 \<le> backoff try \<and> backoff try \<le> injectBackoffMax) \<and>
   backoff 42 < 0 \<and> (56 \<le> try \<and> try < injectRetryMax \<longrightarrow> backoff try = 0)"
proof (intro conjI impI)
  assume "try < 42"
  then have p: "1 \<le> (2 :: int) ^ try" "(2 :: int) ^ try \<le> 2 ^ 41"
    by (simp, intro power_increasing) simp_all
  then have "signed_take_bit 63 (4000000 * 2 ^ try) = (4000000 * 2 ^ try :: int)"
  proof (intro signed_take_bit_int_eq_self)
    show "- (2 ^ 63) \<le> (4000000 * 2 ^ try :: int)"
      by (rule order_trans[of _ 0]) simp_all
  qed (use p(2) in simp)
  then show "4 * 1000000 \<le> backoff try" "backoff try \<le> injectBackoffMax"
    using p by (simp_all add: backoff_eq injectBackoffMax_def)
next
  show "backoff 42 < 0"
    by code_simp
next
  assume "56 \<le> try \<and> try < injectRetryMax"
  then obtain k where "try = 56 + k"
    by (metis le_add_diff_inverse)
  then have "4000000 * 2 ^ try = 2 ^ 64 * (15625 * 2 ^ k :: int)"
    by (simp add: power_add)
  then have "signed_take_bit 63 (4000000 * 2 ^ try :: int) = 0"
    by (simp add: signed_take_bit_eq_if_positive bit_iff_odd take_bit_eq_mod)
  then show "backoff try = 0"
    by (simp add: backoff_eq injectBackoffMax_def)
qed

text \<open>C20.  The injector keeps its counters in range: after any number of writes the burst is below the
  limit, and the limit is between 1 and 32.\<close>

theorem injector_range:
  assumes "inj_step\<^sup>*\<^sup>* (newInjector tx) q" "inj_write env frame q w = ((r, q'), w')"
  shows "0 \<le> inj_burst q' \<and> inj_burst q' < inj_limit q' \<and> 1 \<le> inj_limit q' \<and> inj_limit q' \<le> 32"
proof -
  have "inj_ok q'"
    using injector.inv_reachable[OF _ assms(1)] inj_write_ok[OF _ assms(2)] by blast
  then show ?thesis
    by (simp add: inj_ok_def injectBurstMax_def)
qed

theorem injector_range_witness:
  "inj_limit (snd (fst (inj_write demo_env [] (newInjector TxHandle) demo_start))) \<le> 32"
  using injector_range[of TxHandle "newInjector TxHandle" demo_env "[]" demo_start] by (metis prod.collapse rtranclp.rtrancl_refl)

text \<open>The minimum burst is not kept: halving an odd limit of three gives one, so a full ring can
  bring the limit below \<open>injectBurstMin\<close>.\<close>

lemma injector_below_minimum:
  "\<exists>q. inj_step\<^sup>*\<^sup>* (newInjector tx) q \<and> inj_limit q < injectBurstMin"
proof -
  have steps: "inj_step\<^sup>*\<^sup>* q (inj_full q)" "inj_step\<^sup>*\<^sup>* q (fst (inj_sent q))" for q
    by (blast intro: inj_step.intros)+
  let ?q2 = "inj_full (inj_full (newInjector tx))"
  let ?q3 = "fst (inj_sent (fst (inj_sent ?q2)))"
  have "inj_step\<^sup>*\<^sup>* (newInjector tx) (inj_full ?q3)"
    by (meson steps rtranclp_trans)
  moreover have "inj_limit (inj_full ?q3) < injectBurstMin"
    by (simp add: inj_defs)
  ultimately show ?thesis
    by blast
qed

end
