(* ===== verification/IcmpPool.thy ===== *)
theory IcmpPool
  imports Icmpping
begin

text \<open>
  The goroutines of \<open>Method.Run\<close> in \<open>internal/icmpping/icmpping.go\<close> as a step relation: the feeder
  of the job channel, the workers in \<open>pingOne\<close> and the reader in \<open>readReplies\<close>.  A step is what one
  goroutine does between two points where another may come in: the test of the context and of
  \<open>replied\<close>, the drawing of a sequence number with the encoding, the write, the \<open>select\<close>.  The timer
  of a \<open>select\<close> may fire at any time.
\<close>

subsection \<open>The state\<close>

record pool_cfg =
  pc_attempts :: nat
  pc_cap :: nat
  pc_encode :: "int \<Rightarrow> byte list option"
  pc_accept :: "byte list \<Rightarrow> net_addr \<Rightarrow> string option"

text \<open>Where a worker is: waiting for a job, at the start of \<open>pingOne\<close>, at the head of its loop,
  before the write, in the \<open>select\<close>, after \<open>pingOne\<close>, or gone.\<close>

datatype worker = WIdle | WBegin ip | WTry string nat nat | WSend string nat nat int | WWait string nat nat | WDone | WExit

record pool =
  p_feed :: "ip list"
  p_closed :: bool
  p_queue :: "ip list"
  p_workers :: "worker list"
  p_tr :: tracker
  p_seq :: int
  p_done :: nat
  p_sent :: "(string \<times> int) list"
  p_cancelled :: bool
  p_reader :: bool
  p_panic :: bool

definition job_key :: "ip \<Rightarrow> string" where
  "job_key ip = ip_string (to4 ip)"

definition pool_start :: "ip list \<Rightarrow> nat \<Rightarrow> pool" where
  "pool_start targets n =
     \<lparr>p_feed = targets, p_closed = False, p_queue = [], p_workers = replicate n WIdle, p_tr = newTracker,
      p_seq = 0, p_done = 0, p_sent = [], p_cancelled = False, p_reader = True, p_panic = False\<rparr>"

definition set_worker :: "nat \<Rightarrow> worker \<Rightarrow> pool \<Rightarrow> pool" where
  "set_worker i x s = s\<lparr>p_workers := (p_workers s)[i := x]\<rparr>"

definition at_worker :: "pool \<Rightarrow> nat \<Rightarrow> worker \<Rightarrow> bool" where
  "at_worker s i x \<longleftrightarrow> i < length (p_workers s) \<and> p_workers s ! i = x"

subsection \<open>The steps\<close>

text \<open>What the feeder and the workers do.\<close>

inductive pool_work :: "pool_cfg \<Rightarrow> pool \<Rightarrow> pool \<Rightarrow> bool" for cfg where
  feed_skip: "\<not> p_closed s \<Longrightarrow> p_feed s = ip # ips \<Longrightarrow> to4 ip = [] \<Longrightarrow>
    pool_work cfg s (s\<lparr>p_feed := ips, p_done := Suc (p_done s)\<rparr>)"
| feed_send: "\<not> p_closed s \<Longrightarrow> p_feed s = ip # ips \<Longrightarrow> to4 ip \<noteq> [] \<Longrightarrow> length (p_queue s) < pc_cap cfg \<Longrightarrow>
    pool_work cfg s (s\<lparr>p_feed := ips, p_queue := p_queue s @ [ip]\<rparr>)"
| feed_stop: "\<not> p_closed s \<Longrightarrow> p_feed s = ip # ips \<Longrightarrow> to4 ip \<noteq> [] \<Longrightarrow> p_cancelled s \<Longrightarrow>
    pool_work cfg s (s\<lparr>p_closed := True\<rparr>)"
| feed_close: "\<not> p_closed s \<Longrightarrow> p_feed s = [] \<Longrightarrow> pool_work cfg s (s\<lparr>p_closed := True\<rparr>)"
| take_job: "at_worker s i WIdle \<Longrightarrow> p_queue s = ip # ips \<Longrightarrow>
    pool_work cfg s (set_worker i (WBegin ip) (s\<lparr>p_queue := ips\<rparr>))"
| leave: "at_worker s i WIdle \<Longrightarrow> p_queue s = [] \<Longrightarrow> p_closed s \<Longrightarrow> pool_work cfg s (set_worker i WExit s)"
| begin_skip: "at_worker s i (WBegin ip) \<Longrightarrow> to4 ip = [] \<Longrightarrow> pool_work cfg s (set_worker i WDone s)"
| begin_ping: "at_worker s i (WBegin ip) \<Longrightarrow> to4 ip \<noteq> [] \<Longrightarrow> waiter (job_key ip) (p_tr s) = Some (ch, tr) \<Longrightarrow>
    pool_work cfg s (set_worker i (WTry (job_key ip) ch 0) (s\<lparr>p_tr := tr\<rparr>))"
| try_end: "at_worker s i (WTry k ch a) \<Longrightarrow> \<not> a < pc_attempts cfg \<or> p_cancelled s \<or> replied k (p_tr s) \<Longrightarrow>
    pool_work cfg s (set_worker i WDone s)"
| try_encode: "at_worker s i (WTry k ch a) \<Longrightarrow> a < pc_attempts cfg \<Longrightarrow> \<not> p_cancelled s \<Longrightarrow>
    \<not> replied k (p_tr s) \<Longrightarrow> pc_encode cfg (p_seq s + 1) = Some body \<Longrightarrow>
    pool_work cfg s (set_worker i (WSend k ch a (p_seq s + 1)) (s\<lparr>p_seq := p_seq s + 1\<rparr>))"
| try_fail: "at_worker s i (WTry k ch a) \<Longrightarrow> a < pc_attempts cfg \<Longrightarrow> \<not> p_cancelled s \<Longrightarrow>
    \<not> replied k (p_tr s) \<Longrightarrow> pc_encode cfg (p_seq s + 1) = None \<Longrightarrow>
    pool_work cfg s (set_worker i WDone (s\<lparr>p_seq := p_seq s + 1\<rparr>))"
| send: "at_worker s i (WSend k ch a n) \<Longrightarrow>
    pool_work cfg s (set_worker i (WWait k ch a) (s\<lparr>p_sent := (k, n) # p_sent s\<rparr>))"
| wait_end: "at_worker s i (WWait k ch a) \<Longrightarrow> p_cancelled s \<or> ch \<in> set (shut (p_tr s)) \<Longrightarrow>
    pool_work cfg s (set_worker i WDone s)"
| wait_timeout: "at_worker s i (WWait k ch a) \<Longrightarrow> pool_work cfg s (set_worker i (WTry k ch (Suc a)) s)"
| finish: "at_worker s i WDone \<Longrightarrow> pool_work cfg s (set_worker i WIdle (s\<lparr>p_done := Suc (p_done s)\<rparr>))"

text \<open>What happens around them: the context ends, the reader takes a message, stops on an error that
  is not a timeout, or an operation of the tracker would panic.\<close>

inductive pool_env :: "pool_cfg \<Rightarrow> pool \<Rightarrow> pool \<Rightarrow> bool" for cfg where
  cancel: "pool_env cfg s (s\<lparr>p_cancelled := True\<rparr>)"
| reply: "p_reader s \<Longrightarrow> pc_accept cfg b peer = Some k \<Longrightarrow> gotReply k (p_tr s) = Some tr \<Longrightarrow>
    pool_env cfg s (s\<lparr>p_tr := tr\<rparr>)"
| reader_stop: "p_reader s \<Longrightarrow> pool_env cfg s (s\<lparr>p_reader := False\<rparr>)"
| reply_panic: "p_reader s \<Longrightarrow> pc_accept cfg b peer = Some k \<Longrightarrow> gotReply k (p_tr s) = None \<Longrightarrow>
    pool_env cfg s (s\<lparr>p_panic := True\<rparr>)"
| begin_panic: "at_worker s i (WBegin ip) \<Longrightarrow> to4 ip \<noteq> [] \<Longrightarrow> waiter (job_key ip) (p_tr s) = None \<Longrightarrow>
    pool_env cfg s (s\<lparr>p_panic := True\<rparr>)"

definition pool_step :: "pool_cfg \<Rightarrow> pool \<Rightarrow> pool \<Rightarrow> bool" where
  "pool_step cfg s t \<longleftrightarrow> pool_work cfg s t \<or> pool_env cfg s t"

text \<open>\<open>wg.Wait\<close> returns.\<close>

definition finished :: "pool \<Rightarrow> bool" where
  "finished s \<longleftrightarrow> p_closed s \<and> (\<forall>x \<in> set (p_workers s). x = WExit)"

inductive_cases pool_workE: "pool_work cfg s t"
inductive_cases pool_envE: "pool_env cfg s t"

subsection \<open>Updating a worker\<close>

named_theorems pool_simps \<open>the fields of an updated state\<close>

lemma set_worker_fields [simp, pool_simps]:
  "p_feed (set_worker i x s) = p_feed s" "p_closed (set_worker i x s) = p_closed s"
  "p_queue (set_worker i x s) = p_queue s" "p_workers (set_worker i x s) = (p_workers s)[i := x]"
  "p_tr (set_worker i x s) = p_tr s" "p_seq (set_worker i x s) = p_seq s"
  "p_done (set_worker i x s) = p_done s" "p_sent (set_worker i x s) = p_sent s"
  "p_cancelled (set_worker i x s) = p_cancelled s" "p_reader (set_worker i x s) = p_reader s"
  "p_panic (set_worker i x s) = p_panic s"
  by (simp_all add: set_worker_def)

definition total :: "(worker \<Rightarrow> nat) \<Rightarrow> worker list \<Rightarrow> nat" where
  "total f ws = sum_list (map f ws)"

lemma total_update: "i < length ws \<Longrightarrow> total f (ws[i := x]) + f (ws ! i) = total f ws + f x"
  by (induction ws arbitrary: i) (auto simp: total_def split: nat.splits)

lemma total_set_worker:
  "at_worker s i w \<Longrightarrow> total f ((p_workers s)[i := x]) + f w = total f (p_workers s) + f x"
  unfolding at_worker_def using total_update by blast

lemma at_worker_mem: "at_worker s i w \<Longrightarrow> w \<in> set (p_workers s)"
  by (auto simp: at_worker_def)

lemma set_workers_update: "w \<in> set (ws[i := x]) \<Longrightarrow> w = x \<or> w \<in> set ws"
  using set_update_subset_insert[of ws i x] by blast

subsection \<open>The invariant of the goroutines\<close>

fun worker_ok :: "pool_cfg \<Rightarrow> ip list \<Rightarrow> tracker \<Rightarrow> worker \<Rightarrow> bool" where
  "worker_ok cfg targets tr (WBegin ip) \<longleftrightarrow> to4 ip \<noteq> [] \<and> ip \<in> set targets"
| "worker_ok cfg targets tr (WTry k ch a) \<longleftrightarrow> a \<le> pc_attempts cfg \<and> k \<in> set (wanted_keys targets) \<and> chan_of k ch tr"
| "worker_ok cfg targets tr (WSend k ch a n) \<longleftrightarrow> a < pc_attempts cfg \<and> k \<in> set (wanted_keys targets) \<and> chan_of k ch tr"
| "worker_ok cfg targets tr (WWait k ch a) \<longleftrightarrow> a < pc_attempts cfg \<and> k \<in> set (wanted_keys targets) \<and> chan_of k ch tr"
| "worker_ok cfg targets tr WIdle \<longleftrightarrow> True"
| "worker_ok cfg targets tr WDone \<longleftrightarrow> True"
| "worker_ok cfg targets tr WExit \<longleftrightarrow> True"

definition pool_ok :: "pool_cfg \<Rightarrow> ip list \<Rightarrow> pool \<Rightarrow> bool" where
  "pool_ok cfg targets s \<longleftrightarrow>
     tracker_ok (p_tr s) \<and> \<not> p_panic s \<and>
     (\<forall>k. replied k (p_tr s) \<longrightarrow> k \<in> set (wanted_keys targets)) \<and>
     (\<forall>w \<in> set (p_workers s). worker_ok cfg targets (p_tr s) w) \<and>
     (\<forall>ip \<in> set (p_queue s). to4 ip \<noteq> [] \<and> ip \<in> set targets) \<and>
     set (p_feed s) \<subseteq> set targets \<and>
     (WExit \<in> set (p_workers s) \<longrightarrow> p_closed s \<and> p_queue s = []) \<and>
     (p_closed s \<longrightarrow> p_feed s = [] \<or> p_cancelled s)"

definition accepts_wanted :: "pool_cfg \<Rightarrow> ip list \<Rightarrow> bool" where
  "accepts_wanted cfg targets \<longleftrightarrow>
     (\<forall>b peer k. pc_accept cfg b peer = Some k \<longrightarrow> k \<in> set (wanted_keys targets))"

lemma job_key_wanted: "ip \<in> set targets \<Longrightarrow> to4 ip \<noteq> [] \<Longrightarrow> job_key ip \<in> set (wanted_keys targets)"
  by (auto simp: wanted_keys_eq job_key_def)

lemma pool_start_ok: "pool_ok cfg targets (pool_start targets n)"
  by (auto simp: pool_ok_def pool_start_def newTracker_ok) (auto simp: newTracker_def replied_def)

lemma worker_ok_mono:
  "worker_ok cfg targets tr w \<Longrightarrow> (\<And>k ch. chan_of k ch tr \<Longrightarrow> chan_of k ch tr') \<Longrightarrow> worker_ok cfg targets tr' w"
  by (cases w) auto

text \<open>A step of one worker keeps the invariant if the new place of that worker is well formed.\<close>

lemma pool_ok_move:
  assumes "pool_ok cfg targets s" "worker_ok cfg targets (p_tr s) x" "x = WExit \<longrightarrow> p_closed s \<and> p_queue s = []"
  shows "pool_ok cfg targets (set_worker i x s)"
  using assms unfolding pool_ok_def set_worker_fields by (auto dest!: set_workers_update)

lemma pool_ok_worker: "pool_ok cfg targets s \<Longrightarrow> at_worker s i w \<Longrightarrow> worker_ok cfg targets (p_tr s) w"
  by (auto simp: pool_ok_def dest: at_worker_mem)

lemma pool_ok_tracker:
  assumes "pool_ok cfg targets s" "tracker_ok tr" "\<And>k ch. chan_of k ch (p_tr s) \<Longrightarrow> chan_of k ch tr"
    and "\<And>k. replied k tr \<Longrightarrow> k \<in> set (wanted_keys targets)"
  shows "pool_ok cfg targets (s\<lparr>p_tr := tr\<rparr>)"
proof -
  have "worker_ok cfg targets tr w" if "worker_ok cfg targets (p_tr s) w" for w
    using that by (rule worker_ok_mono) (rule assms(3))
  then show ?thesis
    using assms(1,2,4) unfolding pool_ok_def by simp
qed

lemma pool_ok_counters:
  "pool_ok cfg targets (s\<lparr>p_seq := n\<rparr>) \<longleftrightarrow> pool_ok cfg targets s"
  "pool_ok cfg targets (s\<lparr>p_sent := l\<rparr>) \<longleftrightarrow> pool_ok cfg targets s"
  "pool_ok cfg targets (s\<lparr>p_done := d\<rparr>) \<longleftrightarrow> pool_ok cfg targets s"
  "pool_ok cfg targets (s\<lparr>p_reader := b\<rparr>) \<longleftrightarrow> pool_ok cfg targets s"
  by (simp_all add: pool_ok_def)

lemma replied_live: "live t' = live t \<Longrightarrow> replied k t' \<longleftrightarrow> replied k t"
  by (simp add: replied_def)

lemma pool_work_ok:
  assumes "pool_ok cfg targets s" "pool_work cfg s t"
  shows "pool_ok cfg targets t"
  using assms(2)
proof cases
  case (feed_skip ip ips)
  then show ?thesis
    using assms(1) by (auto simp: pool_ok_def)
next
  case (feed_send ip ips)
  then show ?thesis
    using assms(1) by (auto simp: pool_ok_def)
next
  case feed_stop
  then show ?thesis
    using assms(1) by (auto simp: pool_ok_def)
next
  case feed_close
  then show ?thesis
    using assms(1) by (auto simp: pool_ok_def)
next
  case (take_job i ip ips)
  have "pool_ok cfg targets (s\<lparr>p_queue := ips\<rparr>)" "to4 ip \<noteq> []" "ip \<in> set targets"
    using assms(1) take_job(3) by (auto simp: pool_ok_def)
  then show ?thesis
    unfolding take_job(1) by (intro pool_ok_move) simp_all
next
  case leave
  then show ?thesis
    using assms(1) by (auto intro: pool_ok_move)
next
  case begin_skip
  then show ?thesis
    using assms(1) by (auto intro: pool_ok_move)
next
  case (begin_ping i ip ch tr)
  have ok: "tracker_ok (p_tr s)" "\<forall>k. replied k (p_tr s) \<longrightarrow> k \<in> set (wanted_keys targets)"
    using assms(1) by (simp_all add: pool_ok_def)
  obtain ch' tr' where w: "waiter (job_key ip) (p_tr s) = Some (ch', tr')" "tracker_ok tr'"
    "live tr' = live (p_tr s)" "chan_of (job_key ip) ch' tr'" "\<And>l c. chan_of l c (p_tr s) \<Longrightarrow> chan_of l c tr'"
    by (rule waiter_ok[OF ok(1), where k = "job_key ip"]) blast
  then have eq: "ch' = ch" "tr' = tr"
    using begin_ping by simp_all
  have "pool_ok cfg targets (s\<lparr>p_tr := tr\<rparr>)"
    using pool_ok_tracker[OF assms(1) w(2) w(5)] ok(2) replied_live[OF w(3)] unfolding eq by blast
  moreover have "job_key ip \<in> set (wanted_keys targets)"
    using pool_ok_worker[OF assms(1) begin_ping(2)] job_key_wanted by simp
  ultimately show ?thesis
    unfolding begin_ping(1) using w(4) eq by (intro pool_ok_move) simp_all
next
  case try_end
  then show ?thesis
    using assms(1) by (auto intro: pool_ok_move)
next
  case (try_encode i k ch a body)
  then show ?thesis
    using assms(1) pool_ok_worker[OF assms(1) try_encode(2)]
    by (auto intro!: pool_ok_move simp: pool_ok_counters)
next
  case try_fail
  then show ?thesis
    using assms(1) by (auto intro!: pool_ok_move simp: pool_ok_counters)
next
  case (send i k ch a n)
  then show ?thesis
    using assms(1) pool_ok_worker[OF assms(1) send(2)] by (auto intro!: pool_ok_move simp: pool_ok_counters)
next
  case wait_end
  then show ?thesis
    using assms(1) by (auto intro: pool_ok_move)
next
  case (wait_timeout i k ch a)
  then show ?thesis
    using assms(1) pool_ok_worker[OF assms(1) wait_timeout(2)] by (auto intro!: pool_ok_move)
next
  case finish
  then show ?thesis
    using assms(1) by (auto intro!: pool_ok_move simp: pool_ok_counters)
qed

lemma pool_env_ok:
  assumes "pool_ok cfg targets s" "pool_env cfg s t" "accepts_wanted cfg targets"
  shows "pool_ok cfg targets t"
proof -
  have ok: "tracker_ok (p_tr s)" "\<forall>k. replied k (p_tr s) \<longrightarrow> k \<in> set (wanted_keys targets)"
    using assms(1) by (simp_all add: pool_ok_def)
  from assms(2) show ?thesis
  proof cases
    case cancel
    then show ?thesis
      using assms(1) by (simp add: pool_ok_def)
  next
    case (reply b peer k tr)
    obtain tr' where g: "gotReply k (p_tr s) = Some tr'" "tracker_ok tr'"
      "\<And>l. replied l tr' \<longleftrightarrow> l = k \<or> replied l (p_tr s)" "\<And>l c. chan_of l c (p_tr s) \<Longrightarrow> chan_of l c tr'"
      by (rule gotReply_ok[OF ok(1), where k = k]) blast
    have "k \<in> set (wanted_keys targets)"
      using assms(3) reply(3) unfolding accepts_wanted_def by blast
    then have "pool_ok cfg targets (s\<lparr>p_tr := tr'\<rparr>)"
      using ok(2) g(3) by (intro pool_ok_tracker[OF assms(1) g(2) g(4)]) auto
    then show ?thesis
      using reply g(1) by simp
  next
    case reader_stop
    then show ?thesis
      using assms(1) by (simp add: pool_ok_counters)
  next
    case (reply_panic b peer k)
    then show ?thesis
      using gotReply_ok[OF ok(1), where k = k] by (metis option.distinct(1))
  next
    case (begin_panic i ip)
    then show ?thesis
      using waiter_ok[OF ok(1), where k = "job_key ip"] by (metis option.distinct(1))
  qed
qed

subsection \<open>Counting the jobs\<close>

fun busy :: "worker \<Rightarrow> nat" where
  "busy WIdle = 0"
| "busy WExit = 0"
| "busy w = 1"

text \<open>Every target is fed, queued, in the hands of a worker, or counted as done.\<close>

definition jobs_ok :: "ip list \<Rightarrow> nat \<Rightarrow> pool \<Rightarrow> bool" where
  "jobs_ok targets n s \<longleftrightarrow>
     length (p_workers s) = n \<and>
     p_done s + length (p_feed s) + length (p_queue s) + total busy (p_workers s) = length targets"

lemma total_replicate: "f WIdle = 0 \<Longrightarrow> total f (replicate n WIdle) = 0"
  by (induction n) (simp_all add: total_def)

lemma jobs_ok_start: "jobs_ok targets n (pool_start targets n)"
  by (simp add: jobs_ok_def pool_start_def total_replicate)

lemma jobs_ok_work:
  assumes "jobs_ok targets n s" "pool_work cfg s t"
  shows "jobs_ok targets n t"
  using assms(2)
proof cases
  case (take_job i ip ips)
  then show ?thesis
    using assms(1) total_set_worker[OF take_job(2), of busy "WBegin ip"] by (simp add: jobs_ok_def)
next
  case (leave i)
  then show ?thesis
    using assms(1) total_set_worker[OF leave(2), of busy WExit] by (simp add: jobs_ok_def)
next
  case (begin_skip i ip)
  then show ?thesis
    using assms(1) total_set_worker[OF begin_skip(2), of busy WDone] by (simp add: jobs_ok_def)
next
  case (begin_ping i ip ch tr)
  then show ?thesis
    using assms(1) total_set_worker[OF begin_ping(2), of busy "WTry (job_key ip) ch 0"] by (simp add: jobs_ok_def)
next
  case (try_end i k ch a)
  then show ?thesis
    using assms(1) total_set_worker[OF try_end(2), of busy WDone] by (simp add: jobs_ok_def)
next
  case (try_encode i k ch a body)
  then show ?thesis
    using assms(1) total_set_worker[OF try_encode(2), of busy "WSend k ch a (p_seq s + 1)"] by (simp add: jobs_ok_def)
next
  case (try_fail i k ch a)
  then show ?thesis
    using assms(1) total_set_worker[OF try_fail(2), of busy WDone] by (simp add: jobs_ok_def)
next
  case (send i k ch a m)
  then show ?thesis
    using assms(1) total_set_worker[OF send(2), of busy "WWait k ch a"] by (simp add: jobs_ok_def)
next
  case (wait_end i k ch a)
  then show ?thesis
    using assms(1) total_set_worker[OF wait_end(2), of busy WDone] by (simp add: jobs_ok_def)
next
  case (wait_timeout i k ch a)
  then show ?thesis
    using assms(1) total_set_worker[OF wait_timeout(2), of busy "WTry k ch (Suc a)"] by (simp add: jobs_ok_def)
next
  case (finish i)
  then show ?thesis
    using assms(1) total_set_worker[OF finish(2), of busy WIdle] by (simp add: jobs_ok_def)
qed (use assms(1) in \<open>simp_all add: jobs_ok_def\<close>)

lemma jobs_ok_env: "jobs_ok targets n s \<Longrightarrow> pool_env cfg s t \<Longrightarrow> jobs_ok targets n t"
  by (erule pool_env.cases) (simp_all add: jobs_ok_def)

subsection \<open>Counting the echo requests\<close>

text \<open>The echo requests for a key that were written, and those that the jobs still allow.\<close>

definition sent_to :: "string \<Rightarrow> pool \<Rightarrow> nat" where
  "sent_to k s = length (filter (\<lambda>(l, n). l = k) (p_sent s))"

definition jobs_for :: "string \<Rightarrow> ip list \<Rightarrow> nat" where
  "jobs_for k ips = length (filter (\<lambda>ip. to4 ip \<noteq> [] \<and> job_key ip = k) ips)"

fun allowance :: "nat \<Rightarrow> string \<Rightarrow> worker \<Rightarrow> nat" where
  "allowance m k (WBegin ip) = (if to4 ip \<noteq> [] \<and> job_key ip = k then m else 0)"
| "allowance m k (WTry l ch a) = (if l = k then m - a else 0)"
| "allowance m k (WSend l ch a n) = (if l = k then m - a else 0)"
| "allowance m k (WWait l ch a) = (if l = k then m - Suc a else 0)"
| "allowance m k WIdle = 0"
| "allowance m k WDone = 0"
| "allowance m k WExit = 0"

definition pending :: "nat \<Rightarrow> string \<Rightarrow> pool \<Rightarrow> nat" where
  "pending m k s =
     m * jobs_for k (p_feed s) + m * jobs_for k (p_queue s) + total (allowance m k) (p_workers s)"

definition encodes :: "pool_cfg \<Rightarrow> bool" where
  "encodes cfg \<longleftrightarrow> (\<forall>n. pc_encode cfg n \<noteq> None)"

text \<open>A key never gets more requests than its jobs allow; as long as it has not answered and the
  context is alive, it has not lost any of them.\<close>

definition load :: "pool_cfg \<Rightarrow> string \<Rightarrow> pool \<Rightarrow> nat" where
  "load cfg k s = sent_to k s + pending (pc_attempts cfg) k s"

definition excused :: "pool_cfg \<Rightarrow> string \<Rightarrow> pool \<Rightarrow> bool" where
  "excused cfg k s \<longleftrightarrow> \<not> encodes cfg \<or> p_cancelled s \<or> replied k (p_tr s)"

definition budget_ok :: "pool_cfg \<Rightarrow> ip list \<Rightarrow> string \<Rightarrow> pool \<Rightarrow> bool" where
  "budget_ok cfg targets k s \<longleftrightarrow>
     load cfg k s \<le> pc_attempts cfg * jobs_for k targets \<and>
     (\<not> excused cfg k s \<longrightarrow> load cfg k s = pc_attempts cfg * jobs_for k targets)"

lemmas load_defs = load_def pending_def sent_to_def

lemma jobs_for_simps [simp]:
  "jobs_for k [] = 0"
  "jobs_for k (ip # ips) = (if to4 ip \<noteq> [] \<and> job_key ip = k then Suc (jobs_for k ips) else jobs_for k ips)"
  "jobs_for k (ips @ jps) = jobs_for k ips + jobs_for k jps"
  by (simp_all add: jobs_for_def)

lemma budget_ok_start: "budget_ok cfg targets k (pool_start targets n)"
  by (simp add: budget_ok_def load_defs pool_start_def total_replicate)

lemma waiter_live: "tracker_ok t \<Longrightarrow> waiter k t = Some (ch, t') \<Longrightarrow> live t' = live t"
  using waiter_ok[of t k] by (metis option.inject prod.inject)

lemma gotReply_replied: "tracker_ok t \<Longrightarrow> gotReply l t = Some t' \<Longrightarrow> replied k t \<Longrightarrow> replied k t'"
  using gotReply_ok[of t l] by (metis option.inject)

lemma attempts_left: "a < m \<Longrightarrow> m - a = Suc (m - Suc a)"
  by (simp add: Suc_diff_Suc)

lemma load_work:
  assumes "pool_ok cfg targets s" "pool_work cfg s t"
  shows "load cfg k t = load cfg k s \<or> load cfg k t \<le> load cfg k s \<and> excused cfg k s"
  using assms(2)
proof cases
  case (feed_skip ip ips)
  then show ?thesis
    by (simp add: load_defs)
next
  case (feed_send ip ips)
  then show ?thesis
    by (simp add: load_defs)
next
  case (take_job i ip ips)
  then show ?thesis
    using total_set_worker[OF take_job(2), of "allowance (pc_attempts cfg) k" "WBegin ip"]
    by (cases "to4 ip \<noteq> [] \<and> job_key ip = k") (auto simp: load_defs)
next
  case (leave i)
  then show ?thesis
    using total_set_worker[OF leave(2), of "allowance (pc_attempts cfg) k" WExit] by (simp add: load_defs)
next
  case (begin_skip i ip)
  then show ?thesis
    using total_set_worker[OF begin_skip(2), of "allowance (pc_attempts cfg) k" WDone] by (simp add: load_defs)
next
  case (begin_ping i ip ch tr)
  then show ?thesis
    using total_set_worker[OF begin_ping(2), of "allowance (pc_attempts cfg) k" "WTry (job_key ip) ch 0"]
    by (cases "job_key ip = k") (simp_all add: load_defs)
next
  case (try_end i l ch a)
  then show ?thesis
    using total_set_worker[OF try_end(2), of "allowance (pc_attempts cfg) k" WDone]
    by (cases "l = k") (auto simp: load_defs excused_def)
next
  case (try_encode i l ch a body)
  then show ?thesis
    using total_set_worker[OF try_encode(2), of "allowance (pc_attempts cfg) k" "WSend l ch a (p_seq s + 1)"]
    by (simp add: load_defs)
next
  case (try_fail i l ch a)
  then have "excused cfg k s"
    by (auto simp: encodes_def excused_def)
  then show ?thesis
    using try_fail total_set_worker[OF try_fail(2), of "allowance (pc_attempts cfg) k" WDone]
    by (simp add: load_defs)
next
  case (send i l ch a m)
  obtain c where "pc_attempts cfg = Suc (a + c)"
    using pool_ok_worker[OF assms(1) send(2)] less_imp_Suc_add by auto
  then show ?thesis
    using send total_set_worker[OF send(2), of "allowance (pc_attempts cfg) k" "WWait l ch a"]
    by (cases "l = k") (simp_all add: load_defs)
next
  case (wait_end i l ch a)
  have "replied l (p_tr s)" if "ch \<in> set (shut (p_tr s))"
    using pool_ok_worker[OF assms(1) wait_end(2)] assms(1) that
    by (auto simp: pool_ok_def tracker_ok_def chan_of_def)
  then show ?thesis
    using wait_end total_set_worker[OF wait_end(2), of "allowance (pc_attempts cfg) k" WDone]
    by (cases "l = k") (auto simp: load_defs excused_def)
next
  case (wait_timeout i l ch a)
  then show ?thesis
    using total_set_worker[OF wait_timeout(2), of "allowance (pc_attempts cfg) k" "WTry l ch (Suc a)"]
    by (simp add: load_defs)
next
  case (finish i)
  then show ?thesis
    using total_set_worker[OF finish(2), of "allowance (pc_attempts cfg) k" WIdle] by (simp add: load_defs)
qed (simp_all add: load_defs)

lemma excused_work: "pool_ok cfg targets s \<Longrightarrow> pool_work cfg s t \<Longrightarrow> excused cfg k t = excused cfg k s"
  by (erule pool_work.cases)
    (auto simp: excused_def pool_ok_def dest!: waiter_live replied_live[where k = k])

lemma budget_ok_work:
  "budget_ok cfg targets k s \<Longrightarrow> pool_ok cfg targets s \<Longrightarrow> pool_work cfg s t \<Longrightarrow> budget_ok cfg targets k t"
  using load_work[of cfg targets s t k] excused_work[of cfg targets s t k] unfolding budget_ok_def by auto

lemma budget_ok_env:
  assumes "budget_ok cfg targets k s" "pool_ok cfg targets s" "pool_env cfg s t"
  shows "budget_ok cfg targets k t"
proof -
  have "load cfg k t = load cfg k s"
    using assms(3) by cases (simp_all add: load_defs)
  moreover have "excused cfg k s \<longrightarrow> excused cfg k t"
    using assms(3)
  proof cases
    case (reply b peer l tr)
    then show ?thesis
      using gotReply_replied[of "p_tr s" l tr k] assms(2) by (auto simp: excused_def pool_ok_def)
  qed (auto simp: excused_def)
  ultimately show ?thesis
    using assms(1) unfolding budget_ok_def by auto
qed

subsection \<open>Termination and progress\<close>

fun worker_weight :: "nat \<Rightarrow> worker \<Rightarrow> nat" where
  "worker_weight m WExit = 0"
| "worker_weight m WIdle = 1"
| "worker_weight m WDone = 2"
| "worker_weight m (WBegin ip) = 3 * m + 4"
| "worker_weight m (WTry k ch a) = 3 * (m - a) + 3"
| "worker_weight m (WSend k ch a n) = 3 * (m - a) + 2"
| "worker_weight m (WWait k ch a) = 3 * (m - a) + 1"

definition pool_weight :: "pool_cfg \<Rightarrow> pool \<Rightarrow> nat" where
  "pool_weight cfg s =
     (3 * pc_attempts cfg + 5) * length (p_feed s) + (3 * pc_attempts cfg + 4) * length (p_queue s) +
     total (worker_weight (pc_attempts cfg)) (p_workers s) + (if p_closed s then 0 else 1)"

lemma pool_weight_less:
  assumes "pool_ok cfg targets s" "pool_work cfg s t"
  shows "pool_weight cfg t < pool_weight cfg s"
  using assms(2)
proof cases
  case (take_job i ip ips)
  then show ?thesis
    using total_set_worker[OF take_job(2), of "worker_weight (pc_attempts cfg)" "WBegin ip"]
    by (simp add: pool_weight_def)
next
  case (leave i)
  then show ?thesis
    using total_set_worker[OF leave(2), of "worker_weight (pc_attempts cfg)" WExit] by (simp add: pool_weight_def)
next
  case (begin_skip i ip)
  then show ?thesis
    using total_set_worker[OF begin_skip(2), of "worker_weight (pc_attempts cfg)" WDone]
    by (simp add: pool_weight_def)
next
  case (begin_ping i ip ch tr)
  then show ?thesis
    using total_set_worker[OF begin_ping(2), of "worker_weight (pc_attempts cfg)" "WTry (job_key ip) ch 0"]
    by (simp add: pool_weight_def)
next
  case (try_end i k ch a)
  then show ?thesis
    using total_set_worker[OF try_end(2), of "worker_weight (pc_attempts cfg)" WDone]
    by (simp add: pool_weight_def)
next
  case (try_encode i k ch a body)
  then show ?thesis
    using total_set_worker[OF try_encode(2), of "worker_weight (pc_attempts cfg)" "WSend k ch a (p_seq s + 1)"]
    by (simp add: pool_weight_def)
next
  case (try_fail i k ch a)
  then show ?thesis
    using total_set_worker[OF try_fail(2), of "worker_weight (pc_attempts cfg)" WDone]
    by (simp add: pool_weight_def)
next
  case (send i k ch a n)
  then show ?thesis
    using total_set_worker[OF send(2), of "worker_weight (pc_attempts cfg)" "WWait k ch a"]
    by (simp add: pool_weight_def)
next
  case (wait_end i k ch a)
  have "0 < pc_attempts cfg - a"
    using pool_ok_worker[OF assms(1) wait_end(2)] by simp
  then show ?thesis
    using wait_end total_set_worker[OF wait_end(2), of "worker_weight (pc_attempts cfg)" WDone]
    by (simp add: pool_weight_def del: zero_less_diff)
next
  case (wait_timeout i k ch a)
  have "pc_attempts cfg - a = Suc (pc_attempts cfg - Suc a)"
    using pool_ok_worker[OF assms(1) wait_timeout(2)] by (simp add: attempts_left)
  then show ?thesis
    using wait_timeout total_set_worker[OF wait_timeout(2), of "worker_weight (pc_attempts cfg)" "WTry k ch (Suc a)"]
    by (simp add: pool_weight_def)
next
  case (finish i)
  then show ?thesis
    using total_set_worker[OF finish(2), of "worker_weight (pc_attempts cfg)" WIdle] by (simp add: pool_weight_def)
qed (simp_all add: pool_weight_def)

text \<open>No deadlock: while the stage has not finished, the feeder or a worker can go on.\<close>

lemma worker_progress:
  assumes "pool_ok cfg targets s" "at_worker s i w" "w \<noteq> WIdle" "w \<noteq> WExit"
  shows "\<exists>t. pool_work cfg s t"
proof (cases w)
  case (WBegin ip)
  have "tracker_ok (p_tr s)"
    using assms(1) by (simp add: pool_ok_def)
  then obtain ch tr where "waiter (job_key ip) (p_tr s) = Some (ch, tr)"
    by (rule waiter_ok)
  then show ?thesis
    using assms(2) WBegin pool_work.begin_ping pool_work.begin_skip by metis
next
  case (WTry k ch a)
  then show ?thesis
    using assms(2) pool_work.try_end pool_work.try_encode pool_work.try_fail by (metis option.exhaust)
next
  case WSend
  then show ?thesis
    using assms(2) pool_work.send by metis
next
  case WWait
  then show ?thesis
    using assms(2) pool_work.wait_timeout by metis
next
  case WDone
  then show ?thesis
    using assms(2) pool_work.finish by metis
qed (use assms in simp_all)

lemma pool_progress:
  assumes "pool_ok cfg targets s" "0 < length (p_workers s)" "0 < pc_cap cfg" "\<not> finished s"
  shows "\<exists>t. pool_work cfg s t"
proof (cases "\<forall>w \<in> set (p_workers s). w = WIdle \<or> w = WExit")
  case False
  then obtain i w where "at_worker s i w" "w \<noteq> WIdle" "w \<noteq> WExit"
    by (metis at_worker_def in_set_conv_nth)
  then show ?thesis
    using worker_progress[OF assms(1)] by blast
next
  case True
  have idle: "\<exists>i. at_worker s i WIdle" if "\<not> (\<forall>w \<in> set (p_workers s). w = WExit)"
    using that True by (metis at_worker_def in_set_conv_nth)
  have out: "p_closed s \<and> p_queue s = []" if "WExit \<in> set (p_workers s)"
    using that assms(1) by (simp add: pool_ok_def)
  show ?thesis
  proof (cases "p_closed s")
    case closed: True
    then obtain i where i: "at_worker s i WIdle"
      using idle assms(4) by (auto simp: finished_def)
    show ?thesis
      using i closed pool_work.leave pool_work.take_job by (metis list.exhaust)
  next
    case False
    then have "WExit \<notin> set (p_workers s)"
      using out by blast
    then obtain i where i: "at_worker s i WIdle"
      using idle assms(2) by (metis last_in_set length_greater_0_conv)
    show ?thesis
    proof (cases "p_queue s")
      case Nil
      then show ?thesis
        using False assms(3) pool_work.feed_close pool_work.feed_skip pool_work.feed_send
        by (metis list.exhaust list.size(3))
    next
      case Cons
      then show ?thesis
        using i pool_work.take_job by metis
    qed
  qed
qed

subsection \<open>The stage\<close>

definition icmp_cfg ::
  "(byte list \<Rightarrow> icmp_message option) \<Rightarrow> (icmp_message \<Rightarrow> byte list option) \<Rightarrow> int \<Rightarrow> int \<Rightarrow> int \<Rightarrow>
   ip list \<Rightarrow> pool_cfg" where
  "icmp_cfg parse marshal attempts workers echoID targets =
     \<lparr>pc_attempts = nat attempts, pc_cap = nat (workers * 2), pc_encode = encodeEcho marshal echoID,
      pc_accept = reply_key parse echoID (wanted_keys targets)\<rparr>"

text \<open>
  The environment of the stage: the ICMP library, the process number, and how the goroutines run,
  that is the state of the pool in which the reader is joined.
\<close>

record 'w icmp_env =
  ie_listen :: "string \<Rightarrow> string \<Rightarrow> 'w \<Rightarrow> string option \<times> 'w"
  ie_parse :: "byte list \<Rightarrow> icmp_message option"
  ie_marshal :: "icmp_message \<Rightarrow> byte list option"
  ie_pid :: nat
  ie_pool :: "pool_cfg \<Rightarrow> int \<Rightarrow> pool \<Rightarrow> 'w \<Rightarrow> pool \<times> 'w"
  ie_close :: "'w \<Rightarrow> 'w"

definition icmp_Run ::
  "((string, unit) gomap \<Rightarrow> (string, unit) gomap) \<Rightarrow> 'w icmp_env \<Rightarrow> int \<Rightarrow> int \<Rightarrow> 'w request \<Rightarrow> 'w \<Rightarrow>
   (device list \<times> string option) \<times> 'w" where
  "icmp_Run iter env Attempts echo0 req w =
     (let targets = req_Targets req in
      if length targets = 0 then (([], None), w)
      else
        let attempts = run_attempts Attempts; timeout = run_timeout (req_Timeout req);
            workers = run_workers (req_Workers req) targets;
            (conn, w1) = listenICMP (ie_listen env) (req_SrcIP req) w
        in case conn of
             Inl err \<Rightarrow> (([], Some err), w1)
           | Inr udp \<Rightarrow>
              (let echoID = run_echoID echo0 (ie_pid env); wanted = wanted_keys targets in
               if length wanted = 0 then (([], None), ie_close env w1)
               else
                 let cfg = icmp_cfg (ie_parse env) (ie_marshal env) attempts workers echoID targets;
                     (s, w2) = ie_pool env cfg timeout (pool_start targets (nat workers)) w1
                 in ((icmp_devices (liveIPs iter (p_tr s)), None), ie_close env w2)))"

definition icmp_method ::
  "((string, unit) gomap \<Rightarrow> (string, unit) gomap) \<Rightarrow> 'w icmp_env \<Rightarrow> int \<Rightarrow> int \<Rightarrow> 'w pmethod" where
  "icmp_method iter env Attempts echo0 =
     \<lparr>m_Name = ''icmp'', m_SoftFail = True, m_Run = icmp_Run iter env Attempts echo0\<rparr>"


subsection \<open>The stage as a measured system\<close>

definition icmp_inv :: "pool_cfg \<Rightarrow> ip list \<Rightarrow> nat \<Rightarrow> pool \<Rightarrow> bool" where
  "icmp_inv cfg targets n s \<longleftrightarrow>
     pool_ok cfg targets s \<and> jobs_ok targets n s \<and> (\<forall>k. budget_ok cfg targets k s)"

lemma icmp_cfg_accepts: "accepts_wanted (icmp_cfg parse marshal a m e targets) targets"
  by (auto simp: accepts_wanted_def icmp_cfg_def reply_key_def Let_def split: if_splits)

lemma icmp_inv_start: "icmp_inv cfg targets n (pool_start targets n)"
  by (simp add: icmp_inv_def pool_start_ok jobs_ok_start budget_ok_start)

lemma icmp_inv_step:
  "accepts_wanted cfg targets \<Longrightarrow> icmp_inv cfg targets n s \<Longrightarrow> pool_step cfg s t \<Longrightarrow> icmp_inv cfg targets n t"
  unfolding icmp_inv_def pool_step_def
  using pool_work_ok pool_env_ok jobs_ok_work jobs_ok_env budget_ok_work budget_ok_env by metis

lemma pool_env_weight: "pool_env cfg s t \<Longrightarrow> pool_weight cfg t = pool_weight cfg s"
  by (auto elim!: pool_envE simp: pool_weight_def)

text \<open>Without workers or without room for a job the stage would not get on; the code has both.\<close>

interpretation icmp: fair_system "\<lambda>s. s = pool_start targets n"
  "pool_step (icmp_cfg parse marshal a m e targets)" "icmp_inv (icmp_cfg parse marshal a m e targets) targets n"
  "pool_work (icmp_cfg parse marshal a m e targets)" "pool_weight (icmp_cfg parse marshal a m e targets)"
  "\<lambda>s. finished s \<or> n = 0 \<or> m \<le> 0"
  for parse marshal a m e targets n
proof unfold_locales
  let ?cfg = "icmp_cfg parse marshal a m e targets"
  show "icmp_inv ?cfg targets n s" if "s = pool_start targets n" for s
    using that icmp_inv_start by simp
  show "icmp_inv ?cfg targets n t" if "icmp_inv ?cfg targets n s" "pool_step ?cfg s t" for s t
    using icmp_inv_step[OF icmp_cfg_accepts] that by blast
  show "pool_step ?cfg s t" if "pool_work ?cfg s t" for s t
    using that by (simp add: pool_step_def)
  show less: "pool_weight ?cfg t < pool_weight ?cfg s" if "icmp_inv ?cfg targets n s" "pool_work ?cfg s t" for s t
    using that pool_weight_less unfolding icmp_inv_def by blast
  show "pool_weight ?cfg t \<le> pool_weight ?cfg s" if "icmp_inv ?cfg targets n s" "pool_step ?cfg s t" for s t
    using that less[of s t] pool_env_weight[of ?cfg s t] by (auto simp: pool_step_def)
  show "\<exists>t. pool_work ?cfg s t" if inv: "icmp_inv ?cfg targets n s" and go: "\<not> (finished s \<or> n = 0 \<or> m \<le> 0)" for s
  proof -
    have "0 < pc_cap ?cfg" "0 < length (p_workers s)"
      using inv go by (simp_all add: icmp_cfg_def icmp_inv_def jobs_ok_def)
    then show ?thesis
      using pool_progress[of ?cfg targets s] inv go unfolding icmp_inv_def by blast
  qed
qed

text \<open>What the invariant says once the workers are gone.\<close>

lemma total_exit: "\<forall>x \<in> set ws. x = WExit \<Longrightarrow> f WExit = 0 \<Longrightarrow> total f ws = 0"
  by (induction ws) (auto simp: total_def)

lemma finished_counts:
  assumes "icmp_inv cfg targets n s" "finished s" "0 < n"
  shows "sent_to k s \<le> pc_attempts cfg * jobs_for k targets"
    "\<not> excused cfg k s \<Longrightarrow> sent_to k s = pc_attempts cfg * jobs_for k targets"
    "\<not> p_cancelled s \<Longrightarrow> p_done s = length targets" "p_done s \<le> length targets"
proof -
  have all: "\<forall>x \<in> set (p_workers s). x = WExit"
    using assms(2) by (simp add: finished_def)
  have "p_workers s \<noteq> []"
    using assms(1,3) by (auto simp: icmp_inv_def jobs_ok_def)
  then have q: "p_queue s = []"
    using all assms(1) by (metis icmp_inv_def last_in_set pool_ok_def)
  have feed: "p_feed s = [] \<or> p_cancelled s"
    using assms(1,2) by (simp add: icmp_inv_def pool_ok_def finished_def)
  have busy: "total busy (p_workers s) = 0"
    by (rule total_exit[OF all]) simp
  have load: "load cfg k s = sent_to k s + pc_attempts cfg * jobs_for k (p_feed s)"
    using q total_exit[OF all, of "allowance (pc_attempts cfg) k"] by (simp add: load_defs)
  have b: "budget_ok cfg targets k s"
    using assms(1) by (simp add: icmp_inv_def)
  then show "sent_to k s \<le> pc_attempts cfg * jobs_for k targets"
    using load by (simp add: budget_ok_def)
  show "sent_to k s = pc_attempts cfg * jobs_for k targets" if "\<not> excused cfg k s"
    using b that feed load by (auto simp: budget_ok_def excused_def)
  show "p_done s = length targets" if "\<not> p_cancelled s"
    using assms(1) busy q feed that by (auto simp: icmp_inv_def jobs_ok_def)
  show "p_done s \<le> length targets"
    using assms(1) by (simp add: icmp_inv_def jobs_ok_def)
qed

subsection \<open>Properties\<close>

text \<open>The goroutines of a run of the stage ran by the step relation until the workers were gone.\<close>

definition goroutines_ran :: "'w icmp_env \<Rightarrow> int \<Rightarrow> int \<Rightarrow> 'w request \<Rightarrow> bool" where
  "goroutines_ran env Attempts echo0 req \<longleftrightarrow>
     (\<forall>d w. let targets = req_Targets req; workers = run_workers (req_Workers req) targets;
        cfg = icmp_cfg (ie_parse env) (ie_marshal env) (run_attempts Attempts) workers
                (run_echoID echo0 (ie_pid env)) targets;
        s = fst (ie_pool env cfg d (pool_start targets (nat workers)) w)
      in (pool_step cfg)\<^sup>*\<^sup>* (pool_start targets (nat workers)) s \<and> finished s)"

lemma live_rows:
  assumes "map_order iter" "pool_ok cfg targets s"
  shows "set (icmp_devices (liveIPs iter (p_tr s))) =
      icmp_device ` {ip. is_ip4 ip \<and> replied (ip_string ip) (p_tr s)}"
    "distinct (map IP (icmp_devices (liveIPs iter (p_tr s))))"
    "\<forall>d \<in> set (icmp_devices (liveIPs iter (p_tr s))). IP d \<in> to4 ` set targets"
proof -
  let ?keys = "liveIPs iter (p_tr s)" and ?ip = "\<lambda>k. to4 (parse_ip k)"
  have keys: "set ?keys = {k. replied k (p_tr s)}"
    using map_order_set[OF assms(1)] by (auto simp: liveIPs_def replied_def map_get_keys)
  have ip: "is_ip4 (?ip k) \<and> ip_string (?ip k) = k \<and> ?ip k \<in> to4 ` set targets" if "k \<in> set ?keys" for k
  proof -
    have "k \<in> set (wanted_keys targets)"
      using that assms(2) unfolding keys by (simp add: pool_ok_def)
    then obtain x where "is_ip4 x" "x \<in> to4 ` set targets" "k = ip_string x"
      using wanted_keys_ip4 by blast
    then show ?thesis
      using ipkey.unkey_key[of x] by simp
  qed
  have "map ip_string (map ?ip ?keys) = ?keys"
    using ip by (simp add: map_idI)
  then have devs: "icmp_devices ?keys = map icmp_device (map ?ip ?keys)"
    using icmp_devices_map[of "map ?ip ?keys"] ip by (metis (no_types, lifting) list.pred_map list_all_iff o_apply)
  show "set (icmp_devices ?keys) = icmp_device ` {ip. is_ip4 ip \<and> replied (ip_string ip) (p_tr s)}"
  proof -
    have "?ip ` set ?keys = {ip. is_ip4 ip \<and> replied (ip_string ip) (p_tr s)}" (is "_ = ?live")
    proof (intro set_eqI iffI)
      fix x assume "x \<in> ?ip ` set ?keys"
      then obtain k where k: "k \<in> set ?keys" "x = ?ip k"
        by blast
      have "replied k (p_tr s)"
        using k(1) unfolding keys by (rule CollectD)
      then show "x \<in> ?live"
        using ip[OF k(1)] unfolding k(2) by (metis (lifting) mem_Collect_eq)
    next
      fix x assume x: "x \<in> ?live"
      then have "ip_string x \<in> set ?keys"
        unfolding keys by simp
      then show "x \<in> ?ip ` set ?keys"
        using x ipkey.unkey_key[of x] by (metis (lifting) imageI mem_Collect_eq)
    qed
    then show ?thesis
      unfolding devs set_map by (rule arg_cong[where f = "image icmp_device"])
  qed
  have "distinct_keys (live (p_tr s))"
    using assms(2) unfolding pool_ok_def tracker_ok_def by blast
  then have "distinct ?keys"
    using map_get_order[OF assms(1)] unfolding liveIPs_def distinct_keys_def by blast
  moreover have "inj_on ?ip (set ?keys)"
  proof (rule inj_onI)
    fix k l assume "k \<in> set ?keys" "l \<in> set ?keys" "?ip k = ?ip l"
    then show "k = l"
      using ip[of k] ip[of l] by argo
  qed
  ultimately show "distinct (map IP (icmp_devices ?keys))"
    unfolding devs by (simp add: comp_def distinct_map)
  show "\<forall>d \<in> set (icmp_devices ?keys). IP d \<in> to4 ` set targets"
    unfolding devs using ip by auto
qed


text \<open>C16.  How often an address is pinged: at most the number of attempts for each time it occurs among
  the targets, and exactly that often when it has not answered, the run was not cancelled and the
  requests could be encoded.  The progress counter ends at the number of targets.\<close>

theorem icmp_attempts:
  assumes "(pool_step (icmp_cfg parse marshal a m e targets))\<^sup>*\<^sup>* (pool_start targets n) s" "finished s" "0 < n"
  shows "sent_to k s \<le> nat a * jobs_for k targets \<and>
    (\<not> p_cancelled s \<and> \<not> replied k (p_tr s) \<and> (\<forall>i. encodeEcho marshal e i \<noteq> None) \<longrightarrow>
       sent_to k s = nat a * jobs_for k targets) \<and>
    p_done s \<le> length targets \<and> (\<not> p_cancelled s \<longrightarrow> p_done s = length targets)"
proof -
  let ?cfg = "icmp_cfg parse marshal a m e targets"
  have inv: "icmp_inv ?cfg targets n s"
    by (rule icmp.inv_reachable[OF refl assms(1)])
  have "excused ?cfg k s \<longleftrightarrow> (\<exists>i. encodeEcho marshal e i = None) \<or> p_cancelled s \<or> replied k (p_tr s)"
    by (auto simp: excused_def encodes_def icmp_cfg_def)
  moreover have "pc_attempts ?cfg = nat a"
    by (simp add: icmp_cfg_def)
  ultimately show ?thesis
    using finished_counts(1,2)[OF inv assms(2,3), of k] finished_counts(3,4)[OF inv assms(2,3)] by auto
qed

text \<open>C17.  Safety of the shared tracker in every reachable state: no channel is closed twice (no
  panic), only targets are ever marked live, and no wake-up is lost, that is a worker that waits for
  an address that has answered waits on a closed channel.\<close>

theorem icmp_tracker_safe:
  assumes "(pool_step (icmp_cfg parse marshal a m e targets))\<^sup>*\<^sup>* (pool_start targets n) s"
  shows "\<not> p_panic s \<and> (\<forall>k. replied k (p_tr s) \<longrightarrow> k \<in> set (wanted_keys targets)) \<and>
    (\<forall>k ch i. WWait k ch i \<in> set (p_workers s) \<longrightarrow> replied k (p_tr s) \<longrightarrow> ch \<in> set (shut (p_tr s)))"
proof -
  have ok: "pool_ok (icmp_cfg parse marshal a m e targets) targets s"
    using icmp.inv_reachable[OF refl assms] by (simp add: icmp_inv_def)
  have "ch \<in> set (shut (p_tr s))" if "WWait k ch i \<in> set (p_workers s)" "replied k (p_tr s)" for k ch i
  proof -
    have "worker_ok (icmp_cfg parse marshal a m e targets) targets (p_tr s) (WWait k ch i)"
      using ok that(1) unfolding pool_ok_def by blast
    then show ?thesis
      using chan_of_closed[of "p_tr s" k ch] that(2) ok by (simp add: pool_ok_def)
  qed
  then show ?thesis
    using ok by (auto simp: pool_ok_def)
qed

text \<open>C13.  The stage ends.  From every reachable state the feeder and the workers can finish by their own
  steps alone (there is no deadlock), they cannot take more steps than the weight of the state, and
  whatever replies, cancellations and read errors come in between, every fair run gets there.\<close>

theorem icmp_terminates:
  assumes "(pool_step (icmp_cfg parse marshal a m e targets))\<^sup>*\<^sup>* (pool_start targets n) s" "0 < n" "0 < m"
  shows "(\<exists>t. (pool_work (icmp_cfg parse marshal a m e targets))\<^sup>*\<^sup>* s t \<and> finished t) \<and>
    (\<forall>i t. (pool_work (icmp_cfg parse marshal a m e targets) ^^ i) s t \<longrightarrow>
       i \<le> pool_weight (icmp_cfg parse marshal a m e targets) s) \<and>
    (\<forall>r. r 0 = s \<longrightarrow>
       fair_run (pool_step (icmp_cfg parse marshal a m e targets)) (pool_work (icmp_cfg parse marshal a m e targets)) r \<longrightarrow>
       (\<exists>i. finished (r i)))"
proof -
  have inv: "icmp_inv (icmp_cfg parse marshal a m e targets) targets n s"
    by (rule icmp.inv_reachable[OF refl assms(1)])
  have "\<exists>i. finished (r i)" if "r 0 = s"
    "fair_run (pool_step (icmp_cfg parse marshal a m e targets)) (pool_work (icmp_cfg parse marshal a m e targets)) r" for r
    using icmp.fair_finishes[OF that(2), where n = n] that(1) inv assms(2,3) by auto
  moreover have "i \<le> pool_weight (icmp_cfg parse marshal a m e targets) s"
    if "(pool_work (icmp_cfg parse marshal a m e targets) ^^ i) s t" for i t
    using icmp.work_bounded[OF inv that] by simp
  ultimately show ?thesis
    using icmp.can_finish[OF inv] assms(2,3) by auto
qed

subsection \<open>A run\<close>

definition demo_ip :: ip where
  "demo_ip = [192, 168, 7, 9]"

definition demo_parse :: "byte list \<Rightarrow> icmp_message option" where
  "demo_parse b = Some \<lparr>msg_Type = 0, msg_Code = 0, msg_Body = EchoBody 7 1 []\<rparr>"

abbreviation demo_cfg :: pool_cfg where
  "demo_cfg \<equiv> icmp_cfg demo_parse (\<lambda>m. Some []) 1 1 7 [demo_ip]"

definition demo_tr :: tracker where
  "demo_tr = \<lparr>live = [(ip_string demo_ip, ())], wait = [(ip_string demo_ip, 0)], made = 1, shut = [0]\<rparr>"

definition demo_end :: pool where
  "demo_end = \<lparr>p_feed = [], p_closed = True, p_queue = [], p_workers = [WExit], p_tr = demo_tr, p_seq = 1,
     p_done = 1, p_sent = [(ip_string demo_ip, 1)], p_cancelled = False, p_reader = True, p_panic = False\<rparr>"

lemma demo_ip_to4 [simp]: "to4 demo_ip = demo_ip" "demo_ip \<noteq> []" "is_ip4 demo_ip" "job_key demo_ip = ip_string demo_ip"
  by (simp_all add: demo_ip_def is_ip4_def job_key_def)

lemma demo_wanted: "wanted_keys [demo_ip] = [ip_string demo_ip]"
  by simp

text \<open>One worker, one target: the request is written, the reply arrives before the timer fires.\<close>

lemma demo_pool_run: "(pool_step demo_cfg)\<^sup>*\<^sup>* (pool_start [demo_ip] 1) demo_end"
proof -
  let ?k = "ip_string demo_ip"
  let ?s0 = "pool_start [demo_ip] 1"
  let ?tr = "\<lparr>live = [], wait = [(?k, 0)], made = 1, shut = []\<rparr>"
  let ?st = "\<lambda>closed q w tr n d l. \<lparr>p_feed = [], p_closed = closed, p_queue = q, p_workers = [w], p_tr = tr,
     p_seq = n, p_done = d, p_sent = l, p_cancelled = False, p_reader = True, p_panic = False\<rparr>"
  note sw = set_worker_def at_worker_def pool_start_def icmp_cfg_def
  have "pool_step demo_cfg ?s0 (?st False [demo_ip] WIdle newTracker 0 0 [])"
    using pool_work.feed_send[of ?s0 demo_ip "[]" demo_cfg] by (simp add: pool_step_def sw)
  moreover have "pool_step demo_cfg (?st False [demo_ip] WIdle newTracker 0 0 []) (?st False [] (WBegin demo_ip) newTracker 0 0 [])"
    using pool_work.take_job[of "?st False [demo_ip] WIdle newTracker 0 0 []" 0 demo_ip "[]" demo_cfg]
    by (simp add: pool_step_def sw)
  moreover have "pool_step demo_cfg (?st False [] (WBegin demo_ip) newTracker 0 0 []) (?st False [] (WTry ?k 0 0) ?tr 0 0 [])"
    using pool_work.begin_ping[of "?st False [] (WBegin demo_ip) newTracker 0 0 []" 0 demo_ip 0 ?tr demo_cfg]
    by (simp add: pool_step_def sw waiter_def newTracker_def make_chan_def)
  moreover have "pool_step demo_cfg (?st False [] (WTry ?k 0 0) ?tr 0 0 []) (?st False [] (WSend ?k 0 0 1) ?tr 1 0 [])"
    using pool_work.try_encode[of "?st False [] (WTry ?k 0 0) ?tr 0 0 []" 0 ?k 0 0 demo_cfg "[]"]
    by (simp add: pool_step_def sw replied_def encodeEcho_def)
  moreover have "pool_step demo_cfg (?st False [] (WSend ?k 0 0 1) ?tr 1 0 []) (?st False [] (WWait ?k 0 0) ?tr 1 0 [(?k, 1)])"
    using pool_work.send[of "?st False [] (WSend ?k 0 0 1) ?tr 1 0 []" 0 ?k 0 0 1 demo_cfg]
    by (simp add: pool_step_def sw)
  moreover have "pool_step demo_cfg (?st False [] (WWait ?k 0 0) ?tr 1 0 [(?k, 1)]) (?st False [] (WWait ?k 0 0) demo_tr 1 0 [(?k, 1)])"
    using pool_env.reply[of "?st False [] (WWait ?k 0 0) ?tr 1 0 [(?k, 1)]" demo_cfg "[]" "IPAddr demo_ip" ?k demo_tr]
    by (simp add: pool_step_def sw reply_key_def addrIP_def isOurEchoReply_def demo_parse_def ICMPTypeEchoReply_def
        gotReply_def close_chan_def demo_tr_def)
  moreover have "pool_step demo_cfg (?st False [] (WWait ?k 0 0) demo_tr 1 0 [(?k, 1)]) (?st False [] WDone demo_tr 1 0 [(?k, 1)])"
    using pool_work.wait_end[of "?st False [] (WWait ?k 0 0) demo_tr 1 0 [(?k, 1)]" 0 ?k 0 0 demo_cfg]
    by (simp add: pool_step_def sw demo_tr_def)
  moreover have "pool_step demo_cfg (?st False [] WDone demo_tr 1 0 [(?k, 1)]) (?st False [] WIdle demo_tr 1 1 [(?k, 1)])"
    using pool_work.finish[of "?st False [] WDone demo_tr 1 0 [(?k, 1)]" 0 demo_cfg]
    by (simp add: pool_step_def sw)
  moreover have "pool_step demo_cfg (?st False [] WIdle demo_tr 1 1 [(?k, 1)]) (?st True [] WIdle demo_tr 1 1 [(?k, 1)])"
    using pool_work.feed_close[of "?st False [] WIdle demo_tr 1 1 [(?k, 1)]" demo_cfg]
    by (simp add: pool_step_def sw)
  moreover have "pool_step demo_cfg (?st True [] WIdle demo_tr 1 1 [(?k, 1)]) demo_end"
    using pool_work.leave[of "?st True [] WIdle demo_tr 1 1 [(?k, 1)]" 0 demo_cfg]
    by (simp add: pool_step_def sw demo_end_def)
  ultimately show ?thesis
    by (meson converse_rtranclp_into_rtranclp rtranclp.rtrancl_refl)
qed

lemma demo_finished: "finished demo_end"
  by (simp add: finished_def demo_end_def)

definition demo_ienv :: "nat icmp_env" where
  "demo_ienv = \<lparr>ie_listen = (\<lambda>n a w. (None, w)), ie_parse = demo_parse, ie_marshal = (\<lambda>m. Some []), ie_pid = 7,
     ie_pool = (\<lambda>cfg d s w. (demo_end, w)), ie_close = (\<lambda>w. w)\<rparr>"

definition demo_ireq :: "nat request" where
  "demo_ireq = \<lparr>req_Iface = ln_interface demo_net, req_SrcIP = ln_ip demo_net, req_Targets = [demo_ip],
     req_Workers = 1, req_Timeout = 0, req_Progress = None, req_Warn = None\<rparr>"

lemma demo_irun: "icmp_Run (\<lambda>m. m) demo_ienv 1 0 demo_ireq 0 = (([icmp_device demo_ip], None), 0)"
  using icmp_devices_map[of "[demo_ip]"]
  by (simp add: icmp_Run_def demo_ireq_def demo_ienv_def listenICMP_def Let_def liveIPs_def demo_end_def demo_tr_def)

lemma demo_ran: "goroutines_ran demo_ienv 1 0 demo_ireq"
  using demo_pool_run demo_finished
  by (simp add: goroutines_ran_def demo_ienv_def demo_ireq_def Let_def run_workers_def run_attempts_def run_echoID_def)


theorem icmp_attempts_witness: "sent_to (ip_string demo_ip) demo_end \<le> 1 \<and> p_done demo_end = 1"
  using icmp_attempts[OF demo_pool_run demo_finished, of "ip_string demo_ip"] by (simp add: demo_end_def)

theorem icmp_tracker_safe_witness: "\<not> p_panic demo_end \<and> replied (ip_string demo_ip) (p_tr demo_end)"
  using icmp_tracker_safe[OF demo_pool_run] by (simp add: demo_end_def demo_tr_def replied_def)

theorem icmp_terminates_witness:
  "\<exists>t. (pool_work demo_cfg)\<^sup>*\<^sup>* (pool_start [demo_ip] 1) t \<and> finished t"
  using icmp_terminates[OF rtranclp.rtrancl_refl, of 1 1 demo_parse "\<lambda>m. Some []" 1 7 "[demo_ip]"] by simp

end
