(* ===== verification/Enrich.thy ===== *)
theory Enrich
  imports Device
begin

text \<open>
  \<open>internal/enrich/enrich.go\<close>: one goroutine per device looks its name up by reverse DNS, at most 32
  at a time.  The goroutines are a step relation; the resolver is a parameter that tells which
  answers it may give for a printed address (\<open>None\<close> for an error, the timeout among them).
\<close>

subsection \<open>One lookup\<close>

definition defaultDNSTimeout :: int where
  "defaultDNSTimeout = 300 * 1000000"

definition dns_timeout :: "int \<Rightarrow> int" where
  "dns_timeout timeout = (if timeout \<le> 0 then defaultDNSTimeout else timeout)"

definition dns_slots :: nat where
  "dns_slots = 32"

definition ptr_name :: "string \<Rightarrow> string" where
  "ptr_name name = (if length name > 0 \<and> name ! (length name - 1) = CHR ''.'' then take (length name - 1) name else name)"

definition take_answer :: "string list option \<Rightarrow> device \<Rightarrow> device" where
  "take_answer ans d =
     (case ans of
        None \<Rightarrow> d
      | Some names \<Rightarrow> if length names = 0 then d else d\<lparr>Hostname := ptr_name (names ! 0)\<rparr>)"

subsection \<open>The goroutines\<close>

datatype lookup = Waiting | Busy | Gone

record lookups =
  lk_devices :: "device list"
  lk_at :: "lookup list"
  lk_cancelled :: bool

definition lookup_start :: "device list \<Rightarrow> lookups" where
  "lookup_start devices = \<lparr>lk_devices = devices, lk_at = map (\<lambda>d. Waiting) devices, lk_cancelled = False\<rparr>"

definition busy_lookups :: "lookups \<Rightarrow> nat" where
  "busy_lookups s = length (filter (\<lambda>x. x = Busy) (lk_at s))"

inductive lookup_work :: "(string \<Rightarrow> string list option \<Rightarrow> bool) \<Rightarrow> lookups \<Rightarrow> lookups \<Rightarrow> bool" for resolver where
  acquire: "i < length (lk_at s) \<Longrightarrow> lk_at s ! i = Waiting \<Longrightarrow> busy_lookups s < dns_slots \<Longrightarrow>
    lookup_work resolver s (s\<lparr>lk_at := (lk_at s)[i := Busy]\<rparr>)"
| give_up: "i < length (lk_at s) \<Longrightarrow> lk_at s ! i = Waiting \<Longrightarrow> lk_cancelled s \<Longrightarrow>
    lookup_work resolver s (s\<lparr>lk_at := (lk_at s)[i := Gone]\<rparr>)"
| answer: "i < length (lk_at s) \<Longrightarrow> lk_at s ! i = Busy \<Longrightarrow> resolver (ip_string (IP (lk_devices s ! i))) ans \<Longrightarrow>
    lookup_work resolver s
      (s\<lparr>lk_at := (lk_at s)[i := Gone], lk_devices := (lk_devices s)[i := take_answer ans (lk_devices s ! i)]\<rparr>)"

inductive lookup_step :: "(string \<Rightarrow> string list option \<Rightarrow> bool) \<Rightarrow> lookups \<Rightarrow> lookups \<Rightarrow> bool" for resolver where
  work: "lookup_work resolver s t \<Longrightarrow> lookup_step resolver s t"
| cancel: "lookup_step resolver s (s\<lparr>lk_cancelled := True\<rparr>)"

definition lookups_done :: "lookups \<Rightarrow> bool" where
  "lookups_done s \<longleftrightarrow> (\<forall>x \<in> set (lk_at s). x = Gone)"

inductive_cases lookup_workE: "lookup_work resolver s t"
inductive_cases lookup_stepE: "lookup_step resolver s t"

text \<open>\<open>Hostnames\<close> returns when all goroutines are gone; \<open>run\<close> picks the state in which they are.\<close>

definition Hostnames :: "(lookups \<Rightarrow> 'w \<Rightarrow> lookups \<times> 'w) \<Rightarrow> device list \<Rightarrow> 'w \<Rightarrow> device list \<times> 'w" where
  "Hostnames run devices w = (let (s, w1) = run (lookup_start devices) w in (lk_devices s, w1))"

subsection \<open>The invariant\<close>

text \<open>What a lookup may have made of a device.\<close>

definition looked_up :: "(string \<Rightarrow> string list option \<Rightarrow> bool) \<Rightarrow> device \<Rightarrow> device \<Rightarrow> bool" where
  "looked_up resolver d e \<longleftrightarrow> e = d \<or> (\<exists>ans. resolver (ip_string (IP d)) ans \<and> e = take_answer ans d)"

definition lookups_ok :: "(string \<Rightarrow> string list option \<Rightarrow> bool) \<Rightarrow> device list \<Rightarrow> lookups \<Rightarrow> bool" where
  "lookups_ok resolver devices s \<longleftrightarrow>
     length (lk_at s) = length devices \<and> length (lk_devices s) = length devices \<and>
     busy_lookups s \<le> dns_slots \<and>
     (\<forall>i < length devices.
        (lk_at s ! i \<noteq> Gone \<longrightarrow> lk_devices s ! i = devices ! i) \<and>
        (lk_at s ! i = Gone \<longrightarrow> lk_cancelled s \<and> lk_devices s ! i = devices ! i \<or>
          (\<exists>ans. resolver (ip_string (IP (devices ! i))) ans \<and> lk_devices s ! i = take_answer ans (devices ! i))))"

lemma filter_update:
  "i < length xs \<Longrightarrow>
   length (filter P (xs[i := x])) + (if P (xs ! i) then 1 else 0) = length (filter P xs) + (if P x then 1 else 0)"
proof (induction xs arbitrary: i)
  case (Cons y ys)
  then show ?case
  proof (cases i)
    case (Suc j)
    then show ?thesis
      using Cons.IH[of j] Cons.prems by auto
  qed simp
qed simp

definition lookup_weight :: "lookups \<Rightarrow> nat" where
  "lookup_weight s = 2 * length (filter (\<lambda>x. x = Waiting) (lk_at s)) + busy_lookups s"

lemma lookup_work_ok:
  assumes "lookups_ok resolver devices s" "lookup_work resolver s t"
  shows "lookups_ok resolver devices t \<and> lookup_weight t < lookup_weight s"
  using assms(2)
proof cases
  case (acquire i)
  then show ?thesis
    using assms(1) filter_update[of i "lk_at s" "\<lambda>x. x = Busy" Busy] filter_update[of i "lk_at s" "\<lambda>x. x = Waiting" Busy]
    by (auto simp: lookups_ok_def lookup_weight_def busy_lookups_def nth_list_update)
next
  case (give_up i)
  then show ?thesis
    using assms(1) filter_update[of i "lk_at s" "\<lambda>x. x = Busy" Gone] filter_update[of i "lk_at s" "\<lambda>x. x = Waiting" Gone]
    by (auto simp: lookups_ok_def lookup_weight_def busy_lookups_def nth_list_update)
next
  case (answer i ans)
  then show ?thesis
    using assms(1) filter_update[of i "lk_at s" "\<lambda>x. x = Busy" Gone] filter_update[of i "lk_at s" "\<lambda>x. x = Waiting" Gone]
    by (auto simp: lookups_ok_def lookup_weight_def busy_lookups_def nth_list_update)
qed

lemma lookup_start_ok: "lookups_ok resolver devices (lookup_start devices)"
  by (auto simp: lookups_ok_def lookup_start_def busy_lookups_def comp_def)

lemma lookup_progress:
  assumes "\<forall>a. \<exists>ans. resolver a ans" "\<not> lookups_done s"
  shows "\<exists>t. lookup_work resolver s t"
proof -
  obtain i where i: "i < length (lk_at s)" "lk_at s ! i \<noteq> Gone"
    using assms(2) by (auto simp: lookups_done_def in_set_conv_nth)
  show ?thesis
  proof (cases "\<exists>j < length (lk_at s). lk_at s ! j = Busy")
    case True
    then show ?thesis
      using assms(1) lookup_work.answer by meson
  next
    case False
    then have "lk_at s ! i = Waiting"
      using i by (cases "lk_at s ! i") auto
    moreover have "filter (\<lambda>x. x = Busy) (lk_at s) = []"
      using False by (auto simp: filter_empty_conv in_set_conv_nth)
    then have "busy_lookups s < dns_slots"
      by (simp add: busy_lookups_def dns_slots_def)
    ultimately show ?thesis
      using i lookup_work.acquire by blast
  qed
qed

lemma lookup_step_weight:
  assumes "lookups_ok resolver devices s" "lookup_step resolver s t"
  shows "lookup_weight t \<le> lookup_weight s"
  using assms(2)
proof cases
  case work
  then show ?thesis
    using lookup_work_ok[OF assms(1), of t] by simp
qed (simp add: lookup_weight_def busy_lookups_def)

text \<open>The resolver answers every question, with an error at least.\<close>

interpretation dns: fair_system "\<lambda>s. s = lookup_start devices" "lookup_step resolver" "lookups_ok resolver devices"
  "lookup_work resolver" lookup_weight "\<lambda>s. lookups_done s \<or> \<not> (\<forall>a. \<exists>ans. resolver a ans)"
  for resolver devices
proof unfold_locales
  show "lookups_ok resolver devices t" if "lookups_ok resolver devices s" "lookup_step resolver s t" for s t
    using that(2)
  proof cases
    case work
    then show ?thesis
      using lookup_work_ok that(1) by blast
  next
    case cancel
    then show ?thesis
      using that(1) by (auto simp: lookups_ok_def busy_lookups_def)
  qed
qed (auto simp: lookup_start_ok lookup_step.work lookup_work_ok lookup_step_weight lookup_progress)

subsection \<open>Properties\<close>

text \<open>C25.  In every reachable state at most 32 lookups are in flight.  When all goroutines are gone the list
  has the same devices in the same order, and each of them is as before, if the scan was cancelled, or
  what an answer of the resolver for its own address makes of it.\<close>

theorem Hostnames_result:
  assumes "(lookup_step resolver)\<^sup>*\<^sup>* (lookup_start devices) s"
  shows "busy_lookups s \<le> 32 \<and> length (lk_devices s) = length devices \<and>
    (lookups_done s \<longrightarrow> (\<forall>i < length devices.
       lk_cancelled s \<and> lk_devices s ! i = devices ! i \<or>
       (\<exists>ans. resolver (ip_string (IP (devices ! i))) ans \<and> lk_devices s ! i = take_answer ans (devices ! i))))"
proof -
  have ok: "lookups_ok resolver devices s"
    by (rule dns.inv_reachable[OF refl assms])
  then have "lk_at s ! i = Gone" if "lookups_done s" "i < length devices" for i
    using that by (simp add: lookups_ok_def lookups_done_def)
  then show ?thesis
    using ok unfolding lookups_ok_def dns_slots_def by blast
qed

text \<open>The lookups end: if the resolver answers every question, with an error at least, the goroutines can
  finish from every reachable state, and none of their runs is longer than twice the number of devices.\<close>

lemma Hostnames_ends:
  assumes "(lookup_step resolver)\<^sup>*\<^sup>* (lookup_start devices) s"
  shows "((\<forall>a. \<exists>ans. resolver a ans) \<longrightarrow> (\<exists>t. (lookup_work resolver)\<^sup>*\<^sup>* s t \<and> lookups_done t)) \<and>
    (\<forall>n t. (lookup_work resolver ^^ n) s t \<longrightarrow> n \<le> 2 * length devices)"
proof -
  have ok: "lookups_ok resolver devices s"
    by (rule dns.inv_reachable[OF refl assms])
  have "length (filter (\<lambda>x. x = Waiting) xs) + length (filter (\<lambda>x. x = Busy) xs) \<le> length xs" for xs
    by (induction xs) auto
  then have "lookup_weight s \<le> 2 * length (lk_at s)"
    unfolding lookup_weight_def busy_lookups_def
    by (smt (verit, best) add_le_cancel_left mult_2 add_leD1 add_le_mono le_add2 order_trans add.commute add.left_commute)
  then have "n \<le> 2 * length devices" if "(lookup_work resolver ^^ n) s t" for n t
    using dns.work_bounded[OF ok that] ok by (simp add: lookups_ok_def)
  then show ?thesis
    using dns.can_finish[OF ok] by blast
qed

subsection \<open>A lookup\<close>

definition demo_dev :: device where
  "demo_dev = zero_device\<lparr>IP := [10, 0, 0, 7], Hostname := ''sw1''\<rparr>"

definition demo_resolver :: "string \<Rightarrow> string list option \<Rightarrow> bool" where
  "demo_resolver a ans \<longleftrightarrow> ans = Some [''.'']"

definition demo_gone :: lookups where
  "demo_gone = \<lparr>lk_devices = [demo_dev\<lparr>Hostname := []\<rparr>], lk_at = [Gone], lk_cancelled = False\<rparr>"

text \<open>A name found by another stage is replaced, here by the empty name of a record for the root.\<close>

lemma lookup_replaces: "(lookup_step demo_resolver)\<^sup>*\<^sup>* (lookup_start [demo_dev]) demo_gone"
proof -
  let ?s = "\<lparr>lk_devices = [demo_dev], lk_at = [Busy], lk_cancelled = False\<rparr>"
  have "lookup_work demo_resolver (lookup_start [demo_dev]) ?s"
    using lookup_work.acquire[of 0 "lookup_start [demo_dev]" demo_resolver]
    by (simp add: lookup_start_def busy_lookups_def dns_slots_def)
  moreover have "lookup_work demo_resolver ?s demo_gone"
    using lookup_work.answer[of 0 ?s demo_resolver "Some [''.'']"]
    by (simp add: demo_resolver_def demo_gone_def take_answer_def ptr_name_def)
  ultimately show ?thesis
    by (meson converse_rtranclp_into_rtranclp lookup_step.work rtranclp.rtrancl_refl)
qed

theorem Hostnames_result_witness: "lookups_done demo_gone \<and> length (lk_devices demo_gone) = length [demo_dev]"
  using Hostnames_result[OF lookup_replaces] by (simp add: lookups_done_def demo_gone_def)

end
