(* ===== verification/Report.thy ===== *)
theory Report
  imports Pipeline Oui
begin

text \<open>
  \<open>table.go\<close>: the tables printed at the end of a scan and the order of their rows.  The output is a
  list of blocks; a block is its lines, a line the cells between the tabs.  How \<open>text/tabwriter\<close> pads
  the cells into columns is not modelled.
\<close>

subsection \<open>The row of the scanning host\<close>

definition enrichSelf :: "device \<Rightarrow> device" where
  "enrichSelf d =
     (let d = d\<lparr>Vendor := Lookup (MAC d)\<rparr>; d = d\<lparr>Type := InferType (Vendor d)\<rparr>
      in if Status d = [] then d\<lparr>Status := StatusUp\<rparr> else d)"

subsection \<open>Cells\<close>

definition dash :: "string \<Rightarrow> string" where
  "dash s = (if s = [] then ''-'' else s)"

definition formatMAC :: "hwaddr \<Rightarrow> string" where
  "formatMAC mac = (if length mac = 0 then ''-'' else map upper_byte (mac_string mac))"

definition deviceHost :: "device \<Rightarrow> string" where
  "deviceHost d =
     (if SysHostname (SysInfo d) \<noteq> [] then SysHostname (SysInfo d)
      else if Hostname d \<noteq> [] then Hostname d
      else if IP d \<noteq> [] then ip_string (IP d)
      else ''-'')"

definition shouldShowIface :: "iface_counters \<Rightarrow> bool" where
  "shouldShowIface c =
     (if equal_fold (Oper c) ''up'' then True
      else InPackets c OR OutPackets c OR InBytes c OR OutBytes c OR InDrops c OR OutDrops c OR
           InErrors c OR OutErrors c \<noteq> 0)"

text \<open>\<open>strconv.FormatUint(n, 10)\<close>.\<close>

definition format_uint :: "64 word \<Rightarrow> string" where
  "format_uint n = dec (unat n)"

subsection \<open>Blocks of output\<close>

type_synonym line = "string list"
type_synonym block = "line list"

text \<open>\<open>strings.Repeat\<close> of the box-drawing rule U+2500.\<close>

definition rule_cell :: "nat \<Rightarrow> string" where
  "rule_cell n = concat (replicate n (encode_rune 9472))"

definition counter_row :: "string \<times> iface_counters \<Rightarrow> line" where
  "counter_row = (\<lambda>(host, c).
     [host, dash (IfName c), dash (Admin c), dash (Oper c),
      format_uint (InPackets c), format_uint (OutPackets c), format_uint (InDrops c),
      format_uint (OutDrops c), format_uint (InErrors c), format_uint (OutErrors c)])"

definition printIfaceCounters :: "device list \<Rightarrow> block list" where
  "printIfaceCounters devices =
     (let rows = concat (map (\<lambda>d. let host = deviceHost d in
                   map (\<lambda>c. (host, c)) (filter shouldShowIface (Interfaces (SysInfo d)))) devices)
      in if length rows = 0 then []
         else [[''INTERFACE COUNTERS (lifetime)''] #
               [''HOST'', ''PORT'', ''ADMIN'', ''LINK'', ''IN PKTS'', ''OUT PKTS'', ''IN DROP'', ''OUT DROP'',
                ''IN ERR'', ''OUT ERR''] # map counter_row rows])"

definition neighbor_row :: "string \<Rightarrow> neighbor \<Rightarrow> line" where
  "neighbor_row host n =
     [host, dash (LocalPort n), dash (RemoteName n), dash (RemotePort n), dash (RemoteID n)]"

definition printNeighbors :: "device list \<Rightarrow> block list" where
  "printNeighbors devices =
     (if \<not> list_ex (\<lambda>d. length (Neighbors (SysInfo d)) > 0) devices then []
      else [[''LLDP NEIGHBORS''] # [''HOST'', ''LOCAL PORT'', ''REMOTE NAME'', ''REMOTE PORT'', ''REMOTE ID''] #
            concat (map (\<lambda>d. let host = deviceHost d in map (neighbor_row host) (Neighbors (SysInfo d))) devices)])"

definition info_row :: "device \<Rightarrow> line" where
  "info_row d =
     (let s = SysInfo d;
          host = (let host = SysHostname s in if host = [] then dash (Hostname d) else host)
      in [ip_string (IP d), dash (User s), dash host, dash (Model s), dash (Version s), dash (Uptime s),
          dash (CPU s), dash (Memory s), dash (Temp s)])"

definition printSysInfo :: "device list \<Rightarrow> block list" where
  "printSysInfo devices =
     (let rows = filter (\<lambda>d. \<not> Empty (SysInfo d)) devices in
      if length rows = 0 then []
      else [[''SSH SYSTEM INFO''] #
            [''IP'', ''USER'', ''HOSTNAME'', ''MODEL'', ''VERSION'', ''UPTIME'', ''CPU'', ''MEM'', ''TEMP''] #
            map info_row rows] @ printNeighbors rows @ printIfaceCounters rows)"

definition table_row :: "device \<Rightarrow> line" where
  "table_row d =
     (let mac = formatMAC (MAC d);
          host = (if Hostname d = [] then ''-'' else Hostname d);
          vendor = (if Vendor d = [] then ''Unknown'' else Vendor d);
          model = (if Model (SysInfo d) = [] then ''-'' else Model (SysInfo d));
          version = (if Version (SysInfo d) = [] then ''-'' else Version (SysInfo d))
      in [ip_string (IP d), mac, vendor, host, Status d, Type d, model, version])"

definition table_head :: block where
  "table_head =
     [[''IP'', ''MAC'', ''VENDOR'', ''HOSTNAME'', ''STATUS'', ''TYPE'', ''MODEL'', ''VERSION''],
      [rule_cell 15, rule_cell 17, rule_cell 14, rule_cell 16, rule_cell 6, rule_cell 14, rule_cell 12,
       rule_cell 12]]"

definition printTable :: "device list \<Rightarrow> block list" where
  "printTable devices =
     (if length devices = 0 then [table_head @ [''(none)'' # replicate 7 []]]
      else (table_head @ map table_row devices) # printSysInfo devices)"

subsection \<open>The order of the rows\<close>

text \<open>Go compares strings byte by byte.\<close>

fun str_less :: "string \<Rightarrow> string \<Rightarrow> bool" where
  "str_less s [] = False"
| "str_less [] (d # t) = True"
| "str_less (c # s) (d # t) = (if c = d then str_less s t else byte_val c < byte_val d)"

fun bytes_less :: "byte list \<Rightarrow> byte list \<Rightarrow> bool" where
  "bytes_less (x # xs) (y # ys) = (if x \<noteq> y then x < y else bytes_less xs ys)"
| "bytes_less _ _ = False"

definition ipLess :: "ip \<Rightarrow> ip \<Rightarrow> bool" where
  "ipLess a b =
     (let a4 = to4 a; b4 = to4 b in
      if a4 = [] \<or> b4 = [] then str_less (ip_string a) (ip_string b)
      else bytes_less (take 4 a4) (take 4 b4))"

subsection \<open>Facts\<close>

lemma dash_not_Nil [simp]: "dash s \<noteq> []" "[] \<noteq> dash s"
  by (simp_all add: dash_def)

lemma format_uint_not_Nil [simp]: "format_uint n \<noteq> []" "[] \<noteq> format_uint n"
  using dec_not_Nil[of "unat n"] by (auto simp: format_uint_def simp del: dec_not_Nil)

lemma rule_cell_not_Nil: "0 < n \<Longrightarrow> [] \<noteq> rule_cell n"
  by (cases n) (simp_all add: rule_cell_def encode_rune_def)

lemma formatMAC_not_Nil: "formatMAC mac \<noteq> []"
  by (cases mac; cases "tl mac") (auto simp: formatMAC_def mac_string_def hex_byte_def)

lemma deviceHost_not_Nil: "is_ip4 (IP d) \<Longrightarrow> deviceHost d \<noteq> []"
  by (auto simp: deviceHost_def is_ip4_def)

text \<open>A block of \<open>n\<close> columns under a title of one cell, with no empty cell in the columns given.\<close>

definition tabular :: "nat \<Rightarrow> block \<Rightarrow> bool" where
  "tabular n b \<longleftrightarrow> (\<forall>l \<in> set b. [] \<notin> set l \<and> (length l = n \<or> length l = 1))"

lemma tabular_simps:
  "tabular n []" "tabular n (l # b) \<longleftrightarrow> [] \<notin> set l \<and> (length l = n \<or> length l = 1) \<and> tabular n b"
  "tabular n (b @ b') \<longleftrightarrow> tabular n b \<and> tabular n b'"
  by (auto simp: tabular_def)

lemma tabular_map: "(\<And>x. x \<in> set xs \<Longrightarrow> [] \<notin> set (f x) \<and> length (f x) = n) \<Longrightarrow> tabular n (map f xs)"
  by (auto simp: tabular_def)

lemma tabular_concat: "(\<And>x. x \<in> set xs \<Longrightarrow> tabular n (f x)) \<Longrightarrow> tabular n (concat (map f xs))"
  by (auto simp: tabular_def)

lemma counter_row_tabular: "host \<noteq> [] \<Longrightarrow> [] \<notin> set (counter_row (host, c)) \<and> length (counter_row (host, c)) = 10"
  by (simp add: counter_row_def)

lemma neighbor_row_tabular: "host \<noteq> [] \<Longrightarrow> [] \<notin> set (neighbor_row host n) \<and> length (neighbor_row host n) = 5"
  by (simp add: neighbor_row_def)

lemma info_row_tabular: "is_ip4 (IP d) \<Longrightarrow> [] \<notin> set (info_row d) \<and> length (info_row d) = 9"
  using ip_string_not_Nil[of "IP d"] by (auto simp: info_row_def Let_def is_ip4_def simp del: ip_string_not_Nil)

definition printable :: "device \<Rightarrow> bool" where
  "printable d \<longleftrightarrow> is_ip4 (IP d) \<and> Status d \<noteq> [] \<and> Type d \<noteq> []"

lemma table_row_tabular: "printable d \<Longrightarrow> [] \<notin> set (table_row d) \<and> length (table_row d) = 8"
  using formatMAC_not_Nil[of "MAC d"] ip_string_not_Nil[of "IP d"]
  by (auto simp: table_row_def Let_def is_ip4_def printable_def simp del: ip_string_not_Nil)

lemma printNeighbors_tabular:
  assumes "\<forall>d \<in> set ds. is_ip4 (IP d)" "b \<in> set (printNeighbors ds)"
  shows "tabular 5 b"
proof -
  have "tabular 5 (concat (map (\<lambda>d. map (neighbor_row (deviceHost d)) (Neighbors (SysInfo d))) ds))"
    using assms(1) by (intro tabular_concat tabular_map neighbor_row_tabular deviceHost_not_Nil) blast
  then show ?thesis
    using assms(2) by (auto simp: printNeighbors_def tabular_simps Let_def split: if_splits)
qed

definition shown_ports :: "device list \<Rightarrow> (string \<times> iface_counters) list" where
  "shown_ports ds =
     concat (map (\<lambda>d. map (\<lambda>c. (deviceHost d, c)) (filter shouldShowIface (Interfaces (SysInfo d)))) ds)"

lemma printIfaceCounters_eq:
  "printIfaceCounters ds =
     (if shown_ports ds = [] then []
      else [[''INTERFACE COUNTERS (lifetime)''] #
            [''HOST'', ''PORT'', ''ADMIN'', ''LINK'', ''IN PKTS'', ''OUT PKTS'', ''IN DROP'', ''OUT DROP'',
             ''IN ERR'', ''OUT ERR''] # map counter_row (shown_ports ds)])"
  unfolding printIfaceCounters_def shown_ports_def Let_def length_0_conv by (rule refl)

lemma printIfaceCounters_tabular:
  assumes "\<forall>d \<in> set ds. is_ip4 (IP d)" "b \<in> set (printIfaceCounters ds)"
  shows "tabular 10 b"
proof -
  have "\<forall>(h, c) \<in> set (shown_ports ds). h \<noteq> []"
    using assms(1) deviceHost_not_Nil by (auto simp: shown_ports_def)
  then have "tabular 10 (map counter_row (shown_ports ds))"
    using counter_row_tabular by (intro tabular_map) auto
  then show ?thesis
    using assms(2) by (auto simp: printIfaceCounters_eq tabular_simps split: if_splits)
qed

lemma printSysInfo_blocks:
  "b \<in> set (printSysInfo ds) \<Longrightarrow>
   let rows = filter (\<lambda>d. \<not> Empty (SysInfo d)) ds in
   b = [''SSH SYSTEM INFO''] # [''IP'', ''USER'', ''HOSTNAME'', ''MODEL'', ''VERSION'', ''UPTIME'', ''CPU'', ''MEM'', ''TEMP''] #
       map info_row rows \<or> b \<in> set (printNeighbors rows) \<or> b \<in> set (printIfaceCounters rows)"
  by (auto simp: printSysInfo_def Let_def split: if_splits)

lemma printSysInfo_tabular:
  assumes "\<forall>d \<in> set ds. is_ip4 (IP d)" "b \<in> set (printSysInfo ds)"
  shows "tabular 9 b \<or> tabular 5 b \<or> tabular 10 b"
proof -
  let ?rows = "filter (\<lambda>d. \<not> Empty (SysInfo d)) ds"
  have ip: "\<forall>d \<in> set ?rows. is_ip4 (IP d)"
    using assms(1) by simp
  have "tabular 9 (map info_row ?rows)"
    using ip by (intro tabular_map info_row_tabular) blast
  then have "tabular 9 ([''SSH SYSTEM INFO''] # [''IP'', ''USER'', ''HOSTNAME'', ''MODEL'', ''VERSION'', ''UPTIME'', ''CPU'', ''MEM'', ''TEMP''] # map info_row ?rows)"
    by (simp add: tabular_simps)
  then show ?thesis
    using printSysInfo_blocks[OF assms(2)] printNeighbors_tabular[OF ip] printIfaceCounters_tabular[OF ip]
    unfolding Let_def by blast
qed

lemma table_head_tabular: "tabular 8 table_head"
  using rule_cell_not_Nil by (simp add: table_head_def tabular_simps)

subsection \<open>The order is the numeric one\<close>

definition ip_num :: "ip \<Rightarrow> nat" where
  "ip_num p = foldl (\<lambda>n b. 256 * n + unat b) 0 p"

lemma foldl_num: "foldl (\<lambda>n b. 256 * n + unat (b :: byte)) a p = a * 256 ^ length p + ip_num p"
proof (induction p arbitrary: a)
  case (Cons b p)
  show ?case
    using Cons.IH[of "256 * a + unat b"] Cons.IH[of "unat b"] by (simp add: ip_num_def algebra_simps)
qed (simp add: ip_num_def)

lemma ip_num_Cons: "ip_num (b # p) = unat b * 256 ^ length p + ip_num p"
  using foldl_num[of "unat b" p] by (simp add: ip_num_def)

lemma unat_lt_byte: "unat (b :: byte) < 256"
  using unsigned_less[of b] by simp

lemma ip_num_less: "ip_num p < 256 ^ length p"
proof (induction p)
  case (Cons b p)
  have "unat b + 1 \<le> 256"
    using unat_lt_byte[of b] by simp
  then have "(unat b + 1) * 256 ^ length p \<le> 256 * 256 ^ length p"
    by (rule mult_le_mono1)
  moreover have "ip_num (b # p) < (unat b + 1) * 256 ^ length p"
    using Cons.IH by (simp add: ip_num_Cons)
  ultimately have "ip_num (b # p) < 256 * 256 ^ length p"
    by (rule order.strict_trans2[rotated])
  then show ?case
    by (simp only: length_Cons power_Suc)
qed (simp add: ip_num_def)

lemma bytes_less_num: "length p = length q \<Longrightarrow> bytes_less p q \<longleftrightarrow> ip_num p < ip_num q"
proof (induction p q rule: bytes_less.induct)
  case (1 x xs y ys)
  have lt: "unat a * 256 ^ n + m < unat b * 256 ^ n + k"
    if "a < b" "m < 256 ^ n" for a b :: byte and m k n :: nat
  proof -
    have "unat a + 1 \<le> unat b"
      using that(1) by (simp add: word_less_nat_alt)
    then have "(unat a + 1) * 256 ^ n \<le> unat b * 256 ^ n"
      by (rule mult_le_mono1)
    then show ?thesis
      using that(2) by (simp add: algebra_simps)
  qed
  show ?case
  proof (cases "x = y")
    case True
    then show ?thesis
      using 1 by (simp add: ip_num_Cons)
  next
    case False
    then have "x < y \<or> y < x"
      by auto
    then show ?thesis
      using 1 False lt[of x y "ip_num xs" "length xs" "ip_num ys"] lt[of y x "ip_num ys" "length ys" "ip_num xs"]
        ip_num_less[of xs] ip_num_less[of ys] by (auto simp: ip_num_Cons)
  qed
qed (auto simp: ip_num_def)

lemma ip_num_inj: "length p = length q \<Longrightarrow> ip_num p = ip_num q \<Longrightarrow> p = q"
proof (induction p q rule: list_induct2')
  case (4 x xs y ys)
  have "\<not> bytes_less (x # xs) (y # ys)" "\<not> bytes_less (y # ys) (x # xs)"
    using 4 bytes_less_num[of "x # xs" "y # ys"] bytes_less_num[of "y # ys" "x # xs"] by auto
  then have "x = y"
    by (auto split: if_splits)
  then show ?case
    using 4 by (simp add: ip_num_Cons)
qed auto

lemma ipLess_ip4: "is_ip4 a \<Longrightarrow> is_ip4 b \<Longrightarrow> ipLess a b \<longleftrightarrow> ip_num a < ip_num b"
  by (auto simp: ipLess_def Let_def is_ip4_def bytes_less_num)

lemma rows_sorted_strictly:
  assumes "slice_sorted (\<lambda>d e. ipLess (IP d) (IP e)) xs" "distinct (map IP xs)" "\<forall>d \<in> set xs. is_ip4 (IP d)"
  shows "sorted_wrt (\<lambda>d e. ip_num (IP d) < ip_num (IP e)) xs"
  using assms unfolding slice_sorted_def
proof (induction xs)
  case (Cons x xs)
  have "ip_num (IP x) < ip_num (IP e)" if "e \<in> set xs" for e
  proof -
    have "\<not> ipLess (IP e) (IP x)" "is_ip4 (IP e)" "is_ip4 (IP x)" "IP x \<noteq> IP e"
      using that Cons.prems by auto
    then show ?thesis
      using ipLess_ip4[of "IP e" "IP x"] ip_num_inj[of "IP x" "IP e"] by (auto simp: is_ip4_def not_less order_le_less)
  qed
  then show ?case
    using Cons by simp
qed simp

subsection \<open>Properties\<close>

text \<open>C23.  On IPv4 addresses, in their four-byte or their sixteen-byte form, the order of the rows is the
  order of the addresses as 32-bit numbers; it is a strict linear order on them.  Sorted by it, two
  lists of the same devices with distinct addresses are equal, so that the table does not depend on
  the unstable sort nor on the order in which the pipeline returned its rows.\<close>

theorem rows_sorted_unique:
  assumes "\<forall>d \<in> set xs. is_ip4 (IP d)" "distinct (map IP xs)" "mset xs = mset ys"
    and "slice_sorted (\<lambda>d e. ipLess (IP d) (IP e)) xs" "slice_sorted (\<lambda>d e. ipLess (IP d) (IP e)) ys"
  shows "xs = ys \<and> sorted_wrt (\<lambda>d e. ip_num (IP d) < ip_num (IP e)) xs"
proof
  let ?r = "\<lambda>d e. \<not> ipLess (IP e) (IP d)"
  have anti: "d = e" if "d \<in> set xs" "e \<in> set xs" "?r d e" "?r e d" for d e
  proof -
    have "ip_num (IP d) = ip_num (IP e)" "is_ip4 (IP d)" "is_ip4 (IP e)"
      using that assms(1) ipLess_ip4[of "IP d" "IP e"] ipLess_ip4[of "IP e" "IP d"] by auto
    then have "IP d = IP e"
      using ip_num_inj by (simp add: is_ip4_def)
    then show ?thesis
      using assms(2) that(1,2) by (auto simp: distinct_map dest: inj_onD)
  qed
  show "xs = ys"
    using assms(4,5) anti unfolding slice_sorted_def by (rule sorted_wrt_unique[OF _ _ assms(3)])
  show "sorted_wrt (\<lambda>d e. ip_num (IP d) < ip_num (IP e)) xs"
    by (rule rows_sorted_strictly[OF assms(4,2,1)])
qed


text \<open>A port is listed exactly when its link is up, in any spelling of the word, or one of its eight
  counters is not zero; the table of ports is left out exactly when no port is listed.\<close>

lemma ports_listed:
  "printIfaceCounters devices =
     (let rows = [(deviceHost d, c). d \<leftarrow> devices, c \<leftarrow> Interfaces (SysInfo d),
                  equal_fold (Oper c) ''up'' \<or>
                  (\<exists>n \<in> {InPackets c, OutPackets c, InBytes c, OutBytes c, InDrops c, OutDrops c,
                        InErrors c, OutErrors c}. n \<noteq> 0)]
      in if rows = [] then []
         else [[''INTERFACE COUNTERS (lifetime)''] #
               [''HOST'', ''PORT'', ''ADMIN'', ''LINK'', ''IN PKTS'', ''OUT PKTS'', ''IN DROP'', ''OUT DROP'',
                ''IN ERR'', ''OUT ERR''] # map counter_row rows])"
proof -
  have shown: "shouldShowIface c \<longleftrightarrow> equal_fold (Oper c) ''up'' \<or>
      (\<exists>n \<in> {InPackets c, OutPackets c, InBytes c, OutBytes c, InDrops c, OutDrops c, InErrors c, OutErrors c}. n \<noteq> 0)" for c
    by (auto simp: shouldShowIface_def or_eq_0_iff)
  have "map (\<lambda>c. (h, c)) (filter P cs) = concat (map (\<lambda>c. if P c then [(h, c)] else []) cs)" for h :: string and P and cs :: "iface_counters list"
    by (induction cs) auto
  then show ?thesis
    unfolding printIfaceCounters_eq shown_ports_def shown by simp
qed

text \<open>The order is not transitive when an address that is no IPv4 address is among the rows: such
  addresses are compared as text.\<close>

lemma ipv6_demo: "ip_string (32 # replicate 15 0) = ''2000::''" "to4 (32 # replicate 15 0) = []"
proof -
  show "to4 (32 # replicate 15 0) = []"
    by code_simp
  then show "ip_string (32 # replicate 15 0) = ''2000::''"
    by (simp add: ip_string_def) code_simp
qed

lemma ipLess_cycle:
  "ipLess [9, 0, 0, 1] [10, 0, 0, 2] \<and> ipLess [10, 0, 0, 2] (32 # replicate 15 0) \<and> ipLess (32 # replicate 15 0) [9, 0, 0, 1]"
  by (simp add: ipLess_def ipv6_demo ip_string_4 dec.simps digit_char_def byte_val_def char_of_def)

subsection \<open>Examples\<close>

definition demo_row :: "byte \<Rightarrow> device" where
  "demo_row n = zero_device\<lparr>IP := [10, 0, 0, n], Status := StatusUp, Type := TypeUnknown\<rparr>"

lemma demo_row_fields [simp]: "IP (demo_row n) = [10, 0, 0, n]" "printable (demo_row n)"
  by (simp_all add: demo_row_def printable_def is_ip4_def StatusUp_def TypeUnknown_def zero_device_def)

lemma demo_sorted: "slice_sorted (\<lambda>d e. ipLess (IP d) (IP e)) [demo_row 9, demo_row 10]"
  by (simp add: slice_sorted_def ipLess_def)

theorem rows_sorted_unique_witness:
  "sorted_wrt (\<lambda>d e. ip_num (IP d) < ip_num (IP e)) [demo_row 9, demo_row 10]"
  using rows_sorted_unique[OF _ _ refl demo_sorted demo_sorted] by (simp add: is_ip4_def)


end
