(* ===== verification/SshLldp.thy ===== *)
theory SshLldp
  imports SshText
begin

text \<open>
  \<open>internal/sshprobe/lldp.go\<close>: the commands that list the LLDP neighbours, and the parsers of the
  Cisco, Huawei and Junos forms of their output.
\<close>

subsection \<open>Recognising a line\<close>

definition isHoldTime :: "string \<Rightarrow> bool" where
  "isHoldTime s = (if s = [] then False else list_all is_digit_rune (runes s))"

definition labeledField :: "string \<Rightarrow> string \<Rightarrow> string" where
  "labeledField s key =
     (let hit = find (\<lambda>line. case index_byte line (CHR '':'') of
                  None \<Rightarrow> False
                | Some i \<Rightarrow> 0 < i \<and> equal_fold (trim_space (take i line)) key) (map trim_space (lines s))
      in case hit of
           None \<Rightarrow> ''''
         | Some line \<Rightarrow> trim_space (drop (the (index_byte line (CHR '':'')) + 1) line))"

text \<open>A separator: dashes only, at least one.  \<open>strings.Trim(line, "-")\<close> drops dashes at both ends.\<close>

definition trim_dashes :: "string \<Rightarrow> string" where
  "trim_dashes s =
     rev (dropWhile (\<lambda>c. c = CHR ''-'') (rev (dropWhile (\<lambda>c. c = CHR ''-'') s)))"

definition is_separator :: "string \<Rightarrow> bool" where
  "is_separator line \<longleftrightarrow> trim_dashes line = '''' \<and> contains line ''-''"

fun lldp_blocks :: "string list \<Rightarrow> string list \<Rightarrow> string list \<Rightarrow> string list" where
  "lldp_blocks blocks cur [] = (if length cur = 0 then blocks else blocks @ [join [CHR 0x0A] cur])"
| "lldp_blocks blocks cur (line # ls) =
     (if is_separator line
      then lldp_blocks (if length cur = 0 then blocks else blocks @ [join [CHR 0x0A] cur]) [] ls
      else lldp_blocks blocks (cur @ [line]) ls)"

definition splitLLDPBlocks :: "string \<Rightarrow> string list" where
  "splitLLDPBlocks s = lldp_blocks [] [] (lines s)"

subsection \<open>The tables\<close>

text \<open>What follows the first line that is a header; nothing if there is none.\<close>

definition after_header :: "(string \<Rightarrow> bool) \<Rightarrow> string \<Rightarrow> string list" where
  "after_header header s =
     (case first_index (\<lambda>line. header (to_lower line)) (lines s) of
        None \<Rightarrow> []
      | Some i \<Rightarrow> drop (i + 1) (lines s))"

definition cisco_row :: "string \<Rightarrow> neighbor option" where
  "cisco_row line =
     (let line = trim_space line in
      if line = '''' \<or> has_prefix (to_lower line) ''total'' then None
      else let fs = str_fields line in
        if length fs < 5 then None
        else case first_index isHoldTime fs of
          None \<Rightarrow> None
        | Some hold \<Rightarrow>
            if hold < 2 \<or> hold + 1 \<ge> length fs then None
            else let n = zero_neighbor\<lparr>RemoteName := join '' '' (take (hold - 1) fs), LocalPort := fs ! (hold - 1),
                                      RemotePort := fs ! (length fs - 1)\<rparr>
              in if RemoteName n = '''' \<or> LocalPort n = '''' then None else Some n)"

definition parseCiscoLLDPTable :: "string \<Rightarrow> neighbor list" where
  "parseCiscoLLDPTable s =
     List.map_filter cisco_row (after_header (\<lambda>l. contains l ''device id'' \<and> contains l ''local intf'') s)"

definition cisco_block :: "string \<Rightarrow> neighbor option" where
  "cisco_block b =
     (let n = \<lparr>LocalPort = labeledField b ''local intf'', RemoteName = labeledField b ''system name'',
               RemotePort = labeledField b ''port id'', RemoteID = labeledField b ''chassis id''\<rparr>
      in if LocalPort n = '''' \<and> RemoteName n = '''' then None else Some n)"

definition parseCiscoLLDPDetail :: "string \<Rightarrow> neighbor list" where
  "parseCiscoLLDPDetail s = List.map_filter cisco_block (splitLLDPBlocks s)"

definition junos_row :: "string \<Rightarrow> neighbor option" where
  "junos_row line =
     (let line = trim_space line in
      if line = '''' \<or> has_prefix line ''{'' then None
      else let fs = str_fields line in
        if length fs < 3 then None
        else
          let n = zero_neighbor\<lparr>LocalPort := fs ! 0\<rparr>;
              idAt = map_option Suc (first_index (\<lambda>f. parseHW f \<noteq> []) (drop 1 fs));
              n = (case idAt of None \<Rightarrow> n | Some i \<Rightarrow> n\<lparr>RemoteID := fs ! i\<rparr>);
              n = (if (case idAt of None \<Rightarrow> False | Some i \<Rightarrow> i + 1 < length fs) then
                     let rest = drop (the idAt + 1) fs in
                     if length rest \<ge> 2 then n\<lparr>RemotePort := rest ! 0, RemoteName := join '' '' (drop 1 rest)\<rparr>
                     else if length rest = 1 then n\<lparr>RemoteName := rest ! 0\<rparr> else n
                   else if length fs \<ge> 3 then
                     n\<lparr>RemotePort := fs ! (length fs - 2), RemoteName := fs ! (length fs - 1)\<rparr>
                   else n)
          in if RemoteName n = '''' \<and> RemoteID n = '''' then None else Some n)"

definition parseJunosLLDPTable :: "string \<Rightarrow> neighbor list" where
  "parseJunosLLDPTable s =
     List.map_filter junos_row
       (after_header (\<lambda>l. contains l ''local interface'' \<or> contains l ''interface'' \<and> contains l ''chassis id'') s)"

definition huawei_row :: "string \<Rightarrow> neighbor option" where
  "huawei_row line =
     (let line = trim_space line in
      if line = '''' \<or> has_prefix line ''-'' then None
      else let fs = str_fields line in
        if length fs < 3 then None
        else Some (zero_neighbor\<lparr>LocalPort := fs ! 0, RemoteName := fs ! 1, RemotePort := fs ! 2\<rparr>))"

definition parseHuaweiLLDPTable :: "string \<Rightarrow> neighbor list" where
  "parseHuaweiLLDPTable s = List.map_filter huawei_row (after_header (\<lambda>l. contains l ''neighbor dev'') s)"

definition parseLLDP :: "string \<Rightarrow> neighbor list" where
  "parseLLDP s =
     (if trim_space s = '''' then []
      else let l = to_lower s in
        if contains l ''device id'' \<and> contains l ''local intf'' then parseCiscoLLDPTable s
        else if contains l ''local intf:'' \<and> contains l ''system name:'' then parseCiscoLLDPDetail s
        else if contains l ''neighbor dev'' then parseHuaweiLLDPTable s
        else if contains l ''chassis id'' \<and> (contains l ''local interface'' \<or> contains l ''system name'')
          then parseJunosLLDPTable s
        else [])"

subsection \<open>The commands\<close>

definition lldpCommands :: "string list" where
  "lldpCommands =
    [''show lldp neighbors'', ''cli show lldp neighbors'', ''show lldp neighbor-information'',
     ''display lldp neighbor brief'', ''display lldp neighbor'']"

definition gatherLLDP :: "('w \<Rightarrow> bool) \<Rightarrow> 'w runner \<Rightarrow> 'w \<Rightarrow> string option \<times> 'w" where
  "gatherLLDP ctx_err r = gather_first ctx_err r (\<lambda>out. Some (length (parseLLDP out) > 0)) lldpCommands"

subsection \<open>Facts\<close>

lemma take_field_set: "set (take_field s) \<subseteq> set s"
proof (induction s rule: take_field.induct)
  case (1 s)
  then show ?case
    by (subst take_field.simps) (cases s; auto)
qed

lemma str_fields_not_Nil: "w \<in> set (str_fields s) \<Longrightarrow> w \<noteq> []"
proof (induction s rule: str_fields.induct)
  case (1 s)
  show ?case
  proof (cases "trim_left s = []")
    case False
    then have eq: "str_fields s = take_field (trim_left s) # str_fields (drop (length (take_field (trim_left s))) (trim_left s))"
      by (subst str_fields.simps) (simp add: Let_def)
    have "take_field (trim_left s) \<noteq> []"
      using False by (simp add: take_field_Nil)
    then show ?thesis
      using "1.IH"[OF refl False] "1.prems" unfolding eq by auto
  qed (use "1.prems" in \<open>subst (asm) str_fields.simps, simp\<close>)
qed

lemma str_fields_nth: "i < length (str_fields s) \<Longrightarrow> str_fields s ! i \<noteq> []"
  using str_fields_not_Nil nth_mem by blast

lemma map_filter_set: "y \<in> set (List.map_filter f xs) \<longleftrightarrow> (\<exists>x \<in> set xs. f x = Some y)"
  by (induction xs) (auto simp: map_filter_simps split: option.splits)

lemma cisco_row_ok: "cisco_row line = Some n \<Longrightarrow> LocalPort n \<noteq> [] \<and> RemoteName n \<noteq> [] \<and> RemotePort n \<noteq> []"
proof -
  assume row: "cisco_row line = Some n"
  let ?fs = "str_fields (trim_space line)"
  obtain hold where h: "\<not> (hold < 2 \<or> hold + 1 \<ge> length ?fs)"
    "n = zero_neighbor\<lparr>RemoteName := join '' '' (take (hold - 1) ?fs), LocalPort := ?fs ! (hold - 1),
          RemotePort := ?fs ! (length ?fs - 1)\<rparr>" "RemoteName n \<noteq> ''''" "LocalPort n \<noteq> ''''"
    using row unfolding cisco_row_def Let_def by (auto split: if_splits option.splits)
  then have "?fs ! (length ?fs - 1) \<in> set ?fs"
    by (intro nth_mem) auto
  then show ?thesis
    using h str_fields_not_Nil by auto
qed

lemma huawei_row_ok: "huawei_row line = Some n \<Longrightarrow> LocalPort n \<noteq> [] \<and> RemoteName n \<noteq> [] \<and> RemotePort n \<noteq> []"
proof -
  assume row: "huawei_row line = Some n"
  let ?fs = "str_fields (trim_space line)"
  have "n = zero_neighbor\<lparr>LocalPort := ?fs ! 0, RemoteName := ?fs ! 1, RemotePort := ?fs ! 2\<rparr>" "3 \<le> length ?fs"
    using row unfolding huawei_row_def Let_def by (auto split: if_splits)
  moreover have "?fs ! 0 \<noteq> []" "?fs ! 1 \<noteq> []" "?fs ! 2 \<noteq> []"
    using \<open>3 \<le> length ?fs\<close> by (auto intro!: str_fields_nth)
  ultimately show ?thesis
    by simp
qed

lemma junos_row_ok: "junos_row line = Some n \<Longrightarrow> LocalPort n \<noteq> [] \<and> (RemoteName n \<noteq> [] \<or> RemoteID n \<noteq> [])"
proof -
  assume row: "junos_row line = Some n"
  let ?fs = "str_fields (trim_space line)"
  have "3 \<le> length ?fs" "RemoteName n \<noteq> [] \<or> RemoteID n \<noteq> []" "LocalPort n = ?fs ! 0"
    using row unfolding junos_row_def Let_def by (auto split: if_splits option.splits)
  moreover have "?fs ! 0 \<noteq> []"
    using \<open>3 \<le> length ?fs\<close> by (intro str_fields_nth) linarith
  ultimately show ?thesis
    by simp
qed

lemma cisco_block_ok: "cisco_block b = Some n \<Longrightarrow> LocalPort n \<noteq> [] \<or> RemoteName n \<noteq> []"
  by (auto simp: cisco_block_def Let_def split: if_splits)

lemma parseLLDP_cases:
  assumes "n \<in> set (parseLLDP s)"
  obtains (table) "n \<in> set (parseCiscoLLDPTable s)" | (detail) "n \<in> set (parseCiscoLLDPDetail s)"
    | (huawei) "n \<in> set (parseHuaweiLLDPTable s)" | (junos) "n \<in> set (parseJunosLLDPTable s)"
  using assms unfolding parseLLDP_def Let_def by (auto split: if_splits)

subsection \<open>A table written by a Cisco switch\<close>

text \<open>A row: the words of the remote name, the local port, the hold time, the capabilities, the remote port.\<close>

type_synonym lldp_row = "string list \<times> string \<times> string \<times> string list \<times> string"

definition row_words :: "lldp_row \<Rightarrow> string list" where
  "row_words = (\<lambda>(name, port, hold, caps, rport). name @ [port, hold] @ caps @ [rport])"

definition lldp_row_ok :: "lldp_row \<Rightarrow> bool" where
  "lldp_row_ok = (\<lambda>(name, port, hold, caps, rport).
     name \<noteq> [] \<and> 5 \<le> length name + length caps + 3 \<and> isHoldTime hold \<and>
     list_all (\<lambda>w. \<not> isHoldTime w) (name @ [port]) \<and>
     list_all (\<lambda>w. w \<noteq> [] \<and> list_all plain w) (row_words (name, port, hold, caps, rport)) \<and>
     \<not> has_prefix (to_lower (join '' '' (row_words (name, port, hold, caps, rport)))) ''total'')"

definition row_neighbor :: "lldp_row \<Rightarrow> neighbor" where
  "row_neighbor = (\<lambda>(name, port, hold, caps, rport).
     zero_neighbor\<lparr>RemoteName := join '' '' name, LocalPort := port, RemotePort := rport\<rparr>)"

definition cisco_head :: string where
  "cisco_head = ''Device ID  Local Intf  Hold-time  Capability  Port ID''"

definition cisco_table :: "lldp_row list \<Rightarrow> string" where
  "cisco_table rows = join [CHR 0x0A] (cisco_head # map (\<lambda>r. join '' '' (row_words r)) rows)"

lemma join_not_Nil: "ws \<noteq> [] \<Longrightarrow> hd ws \<noteq> [] \<Longrightarrow> join sep ws \<noteq> []"
  by (cases ws; cases "tl ws") auto

lemma cisco_row_words: "lldp_row_ok r \<Longrightarrow> cisco_row (join '' '' (row_words r)) = Some (row_neighbor r)"
proof -
  assume ok: "lldp_row_ok r"
  obtain name port hold caps rport where r: "r = (name, port, hold, caps, rport)"
    by (cases r)
  let ?ws = "row_words r"
  have plain: "list_all (\<lambda>w. w \<noteq> [] \<and> list_all plain w) ?ws" and name: "name \<noteq> []"
    and len: "5 \<le> length ?ws"
    using ok by (auto simp: lldp_row_ok_def r row_words_def)
  then have words: "list_all is_word ?ws" and ne: "?ws \<noteq> []"
    using plain_word by (auto simp: list_all_iff)
  have fs: "str_fields (join '' '' ?ws) = ?ws"
    by (rule fields_join[OF words])
  have tidy: "trim_space (join '' '' ?ws) = join '' '' ?ws"
    by (rule trim_space_tidy_id, rule plain_tidy_join[OF ne plain])
  have "hd ?ws \<noteq> []"
    using plain ne by (cases ?ws) auto
  then have nonempty: "join '' '' ?ws \<noteq> []"
    by (rule join_not_Nil[OF ne])
  have total: "\<not> has_prefix (to_lower (join '' '' ?ws)) ''total''"
    using ok by (simp add: lldp_row_ok_def r)
  have "first_index isHoldTime ((name @ [port]) @ hold # (caps @ [rport])) = Some (length (name @ [port]))"
    using ok by (intro first_index_append) (auto simp: lldp_row_ok_def r list_all_iff)
  then have hold: "first_index isHoldTime ?ws = Some (length name + 1)"
    by (simp add: row_words_def r)
  have "hd name \<noteq> []" "port \<noteq> []"
    using name plain by (cases name; auto simp: row_words_def r)+
  then have "join '' '' name \<noteq> []" "port \<noteq> []"
    using join_not_Nil[OF name] by simp_all
  moreover have "take (length name) ?ws = name" "?ws ! length name = port" "?ws ! (length ?ws - 1) = rport"
    by (simp_all add: row_words_def r nth_append)
  moreover have "\<not> (length name + 1 < 2 \<or> length name + 1 + 1 \<ge> length ?ws)"
    using name by (cases name) (simp_all add: row_words_def r)
  ultimately show ?thesis
    using total nonempty len unfolding cisco_row_def Let_def tidy fs hold
    by (simp add: row_neighbor_def r)
qed

lemma plain_no_newline: "list_all plain w \<Longrightarrow> CHR 0x0A \<notin> set w"
  by (auto simp: list_all_iff plain_def ascii_space_def byte_val_def)

lemma set_join: "set (join sep ws) \<subseteq> set sep \<union> (\<Union>w \<in> set ws. set w)"
  by (induction sep ws rule: join.induct) auto

lemma cisco_head_facts:
  "CHR 0x0A \<notin> set cisco_head" "list_all is_ascii cisco_head"
  "contains (to_lower cisco_head) ''device id''" "contains (to_lower cisco_head) ''local intf''"
proof -
  show "CHR 0x0A \<notin> set cisco_head"
    by (simp add: cisco_head_def)
  show ascii: "list_all is_ascii cisco_head"
    by (simp add: cisco_head_def is_ascii_def byte_val_def)
  show "contains (to_lower cisco_head) ''device id''" "contains (to_lower cisco_head) ''local intf''"
    by code_simp+
qed

lemma row_line_bytes:
  assumes "lldp_row_ok r"
  shows "CHR 0x0A \<notin> set (join '' '' (row_words r))" "list_all is_ascii (join '' '' (row_words r))"
proof -
  have "\<forall>w \<in> set (row_words r). list_all plain w"
    using assms by (cases r) (auto simp: lldp_row_ok_def list_all_iff)
  then have "c = CHR '' '' \<or> plain c" if "c \<in> set (join '' '' (row_words r))" for c
    using that set_join[of "'' ''" "row_words r"] unfolding list_all_iff by fastforce
  moreover have "\<not> plain (CHR 0x0A)" "is_ascii (CHR '' '')"
    by (simp_all add: plain_def is_ascii_def ascii_space_def byte_val_def)
  ultimately show "CHR 0x0A \<notin> set (join '' '' (row_words r))" "list_all is_ascii (join '' '' (row_words r))"
    unfolding list_all_iff by (blast, metis plain_def)
qed

lemma lines_cisco_table:
  assumes "list_all lldp_row_ok rows"
  shows "lines (cisco_table rows) = cisco_head # map (\<lambda>r. join '' '' (row_words r)) rows"
  unfolding lines_def cisco_table_def using assms row_line_bytes(1) cisco_head_facts(1)
  by (intro split_join) (auto simp: list_all_iff)

lemma cisco_table_ascii: "list_all lldp_row_ok rows \<Longrightarrow> list_all is_ascii (cisco_table rows)"
proof -
  assume "list_all lldp_row_ok rows"
  then have "\<forall>w \<in> set (cisco_head # map (\<lambda>r. join '' '' (row_words r)) rows). \<forall>c \<in> set w. is_ascii c"
    using cisco_head_facts(2) row_line_bytes(2) by (auto simp: list_all_iff)
  then show ?thesis
    using set_join[of "[CHR 0x0A]" "cisco_head # map (\<lambda>r. join '' '' (row_words r)) rows"]
    unfolding cisco_table_def list_all_iff by (auto simp: is_ascii_def byte_val_def)
qed

lemma cisco_table_head: "\<exists>t. cisco_table rows = cisco_head @ t"
  unfolding cisco_table_def by (cases rows) auto

subsection \<open>Properties\<close>

text \<open>C34.  Whatever the text, every neighbour read from it names the local port or the remote system, and
  unless the text is the detailed listing of a Cisco switch it names both sides: the local port, and
  the remote system by its name or its identifier.\<close>

theorem parseLLDP_names:
  assumes "n \<in> set (parseLLDP s)"
  shows "(LocalPort n \<noteq> [] \<or> RemoteName n \<noteq> []) \<and>
    (n \<notin> set (parseCiscoLLDPDetail s) \<longrightarrow> LocalPort n \<noteq> [] \<and> (RemoteName n \<noteq> [] \<or> RemoteID n \<noteq> []))"
  using assms
proof (cases rule: parseLLDP_cases)
  case table
  then show ?thesis
    using cisco_row_ok unfolding parseCiscoLLDPTable_def map_filter_set by blast
next
  case detail
  then show ?thesis
    using cisco_block_ok unfolding parseCiscoLLDPDetail_def map_filter_set by blast
next
  case huawei
  then show ?thesis
    using huawei_row_ok unfolding parseHuaweiLLDPTable_def map_filter_set by blast
next
  case junos
  then show ?thesis
    using junos_row_ok unfolding parseJunosLLDPTable_def map_filter_set by blast
qed

text \<open>C33.  A table of neighbours in the form of a Cisco switch is read back row by row: the name in front of
  the local port may have several words, the port after the hold time is the last field.\<close>

theorem cisco_table_read:
  assumes "list_all lldp_row_ok rows"
  shows "parseLLDP (cisco_table rows) = map row_neighbor rows"
proof -
  let ?s = "cisco_table rows"
  obtain t where t: "?s = cisco_head @ t"
    using cisco_table_head by blast
  have ascii: "list_all is_ascii ?s"
    by (rule cisco_table_ascii[OF assms])
  have low: "to_lower ?s = to_lower cisco_head @ to_lower t"
    using ascii unfolding t by (simp add: to_lower_ascii)
  have "space_at ?s = 0" "?s \<noteq> ''''"
    unfolding t cisco_head_def by (simp_all add: space_at_def is_ascii_def ascii_space_def byte_val_def)
  then have "trim_space ?s \<noteq> ''''"
    by (rule trim_space_not_Nil)
  then have "parseLLDP ?s = parseCiscoLLDPTable ?s"
    unfolding parseLLDP_def Let_def low using cisco_head_facts(3,4) by (simp add: contains_append1)
  moreover have "after_header (\<lambda>l. contains l ''device id'' \<and> contains l ''local intf'') ?s =
      map (\<lambda>r. join '' '' (row_words r)) rows"
    unfolding after_header_def lines_cisco_table[OF assms] using cisco_head_facts(3,4) by simp
  moreover have "List.map_filter cisco_row (map (\<lambda>r. join '' '' (row_words r)) rows) = map row_neighbor rows"
    using assms by (induction rows) (simp_all add: map_filter_simps cisco_row_words)
  ultimately show ?thesis
    unfolding parseCiscoLLDPTable_def by simp
qed

subsection \<open>Examples\<close>

definition demo_lldp :: lldp_row where
  "demo_lldp = ([''core'', ''sw''], ''Gi0/1'', ''120'', [''B''], ''Eth1/1'')"

lemma demo_lldp_ok: "list_all lldp_row_ok [demo_lldp]"
  by code_simp

theorem cisco_table_read_witness: "parseLLDP (cisco_table [demo_lldp]) = [row_neighbor demo_lldp]"
  using cisco_table_read[OF demo_lldp_ok] by simp

definition demo_huawei :: string where
  "demo_huawei = join [CHR 0x0A] [''Local Intf  Neighbor Dev'', ''GE1 sw2 GE2 120'']"

lemma demo_huawei_read:
  "parseLLDP demo_huawei = [zero_neighbor\<lparr>LocalPort := ''GE1'', RemoteName := ''sw2'', RemotePort := ''GE2''\<rparr>]"
  by code_simp

theorem parseLLDP_names_witness:
  "LocalPort (zero_neighbor\<lparr>LocalPort := ''GE1'', RemoteName := ''sw2'', RemotePort := ''GE2''\<rparr>) \<noteq> []"
  using parseLLDP_names[of _ demo_huawei] unfolding demo_huawei_read by simp

end
