(* ===== verification/SshIfaces.thy ===== *)
theory SshIfaces
  imports SshText "HOL-Library.Monad_Syntax"
begin

text \<open>
  \<open>internal/sshprobe/ifaces.go\<close>: the commands that list the counters of the ports, and the parsers of
  the Junos, Cisco and Huawei forms of their output.  Several of its functions look a mark up in
  \<open>ToLower(s)\<close> and cut \<open>s\<close> at the offset found; where the two have different lengths the offset may lie
  outside \<open>s\<close>, and the slice expression panics, which is \<open>None\<close> here.
\<close>

subsection \<open>Slices and numbers\<close>

definition slice_str :: "string \<Rightarrow> nat \<Rightarrow> nat \<Rightarrow> string option" where
  "slice_str s a b = (if a \<le> b \<and> b \<le> length s then Some (take (b - a) (drop a s)) else None)"

definition mustUint :: "string \<Rightarrow> 64 word" where
  "mustUint s = of_nat (fst (parse_uint64 (trim_space s)))"

definition parseUint :: "string \<Rightarrow> 64 word \<times> bool" where
  "parseUint s = (let (n, ok) = parse_uint64 (trim_space s) in (of_nat n, ok))"

definition firstUint :: "rx \<Rightarrow> string \<Rightarrow> 64 word" where
  "firstUint re s = (case find_submatch re s of None \<Rightarrow> 0 | Some m \<Rightarrow> mustUint (m 1))"

definition allDigits :: "string \<Rightarrow> bool" where
  "allDigits s = (if s = '''' then False else list_all (\<lambda>r. \<not> (r < 48 \<or> r > 57)) (runes s))"

definition physicalIfd :: "string \<Rightarrow> string" where
  "physicalIfd name =
     (let name = trim_space name in
      if name = '''' then ''''
      else case last_index name (CHR ''.'') of
        None \<Rightarrow> name
      | Some i \<Rightarrow>
          if i = 0 \<or> i = length name - 1 then name
          else if \<not> allDigits (drop (i + 1) name) then name
          else take i name)"

subsection \<open>Patterns\<close>

definition reJunosPhys :: rx where
  "reJunosPhys = rseq [RBol, cilit ''Physical interface:'', S0, RGroup 1 (plus_of (none_of '','')), lit '','', S0,
                       RGroup 2 (plus_of dot), REol]"

definition labelled_count :: "string \<Rightarrow> string \<Rightarrow> rx" where
  "labelled_count a b = rseq [RBol, S0, cilit a, S1, cilit b, S0, lit '':'', S0, RGroup 1 D1]"

definition reInPackets :: rx where "reInPackets = labelled_count ''Input'' ''packets''"
definition reOutPackets :: rx where "reOutPackets = labelled_count ''Output'' ''packets''"
definition reInBytes :: rx where "reInBytes = labelled_count ''Input'' ''bytes''"
definition reOutBytes :: rx where "reOutBytes = labelled_count ''Output'' ''bytes''"

definition reBareErrors :: rx where
  "reBareErrors = rseq [RAlt RBol (lit '',''), S0, cilit ''Errors:'', S0, RGroup 1 D1]"
definition reBareDrops :: rx where
  "reBareDrops = rseq [RAlt RBol (lit '',''), S0, cilit ''Drops:'', S0, RGroup 1 D1]"
definition reCompactInErr :: rx where
  "reCompactInErr = rseq [cilit ''Input errors:'', S0, RGroup 1 D1]"
definition reCompactOutErr :: rx where
  "reCompactOutErr = rseq [cilit ''Output errors:'', S0, RGroup 1 D1]"

definition reHuaweiHeader :: rx where
  "reHuaweiHeader = rseq [RBol, RGroup 1 N1, S1, cilit ''current state'', S0, lit '':'', S0, RGroup 2 (plus_of dot), REol]"

definition reHuaweiInput :: rx where
  "reHuaweiInput = rseq [cilit ''Input:'', S1, RGroup 1 D1, S1, cilit ''packets,'', S1, RGroup 2 D1, S1, cilit ''bytes'']"
definition reHuaweiOutput :: rx where
  "reHuaweiOutput = rseq [cilit ''Output:'', S1, RGroup 1 D1, S1, cilit ''packets,'', S1, RGroup 2 D1, S1, cilit ''bytes'']"
definition reHuaweiErrors :: rx where
  "reHuaweiErrors = rseq [RGroup 1 D1, S1, cilit ''errors'']"
definition reHuaweiDrops :: rx where
  "reHuaweiDrops = rseq [RGroup 1 D1, S1, cilit ''drop'', ROpt (RSet (ci (CHR ''s''))), ROpt (cilit ''ped'')]"

subsection \<open>Cutting at marks\<close>

text \<open>The offsets of a mark, none overlapping the one before.  No caller passes an empty mark, for which
  the loop of the code would not end.\<close>

function mark_starts :: "string \<Rightarrow> nat \<Rightarrow> string \<Rightarrow> nat list" where
  "mark_starts mark idx rest =
     (if mark = [] then []
      else case index_of rest mark of
        None \<Rightarrow> []
      | Some i \<Rightarrow> (idx + i) # mark_starts mark (idx + i + length mark) (drop (i + length mark) rest))"
  by pat_completeness auto
termination
proof (relation "measure (\<lambda>(mark, idx, rest). length rest)", simp)
  fix mark :: string and idx :: nat and rest i
  assume "mark \<noteq> []" "index_of rest mark = Some i"
  then have "0 < length mark" "rest \<noteq> []"
    by auto
  then show "((mark, idx + i + length mark, drop (i + length mark) rest), mark, idx, rest)
      \<in> measure (\<lambda>(mark, idx, rest). length rest)"
    by simp
qed

declare mark_starts.simps [simp del]

fun cut_blocks :: "string \<Rightarrow> nat list \<Rightarrow> string list option" where
  "cut_blocks s [] = Some []"
| "cut_blocks s [a] = do { b \<leftarrow> slice_str s a (length s); Some [b] }"
| "cut_blocks s (a # a' # as) = do { b \<leftarrow> slice_str s a a'; bs \<leftarrow> cut_blocks s (a' # as); Some (b # bs) }"

definition splitMarkedBlocks :: "string \<Rightarrow> string \<Rightarrow> string list option" where
  "splitMarkedBlocks s mark = (let ls = to_lower s; mark = to_lower mark in cut_blocks s (mark_starts mark 0 ls))"

definition cutAtFold :: "string \<Rightarrow> string \<Rightarrow> string option" where
  "cutAtFold s mark =
     (let l = to_lower s in
      case index_of l (to_lower mark) of
        Some i \<Rightarrow> slice_str s 0 i
      | None \<Rightarrow> Some s)"

definition section_end :: "string \<Rightarrow> string list \<Rightarrow> nat \<Rightarrow> nat" where
  "section_end lb ends endAt =
     foldl (\<lambda>endAt e. if e = '''' then endAt
              else case index_of lb (to_lower e) of
                     Some j \<Rightarrow> if j < endAt then j else endAt
                   | None \<Rightarrow> endAt) endAt ends"

definition sectionBetween :: "string \<Rightarrow> string \<Rightarrow> string list \<Rightarrow> string option" where
  "sectionBetween s start ends =
     (let ls = to_lower s; start = to_lower start in
      case index_of ls start of
        None \<Rightarrow> Some ''''
      | Some i \<Rightarrow>
          do { body \<leftarrow> slice_str s (i + length start) (length s);
               slice_str body 0 (section_end (to_lower body) ends (length body)) })"

subsection \<open>Junos\<close>

definition junosAdmin :: "string \<Rightarrow> string" where
  "junosAdmin rest =
     (let l = to_lower rest in
      if contains l ''administratively down'' \<or> contains l ''disabled'' then ''down''
      else if contains l ''enabled'' then ''up'' else '''')"

definition junosOper :: "string \<Rightarrow> string" where
  "junosOper rest =
     (let l = to_lower rest in
      if contains l ''physical link is up'' then ''up''
      else if contains l ''physical link is down'' then ''down'' else '''')"

definition junos_counters :: "string \<Rightarrow> string \<Rightarrow> string \<Rightarrow> string \<Rightarrow> iface_counters \<Rightarrow> iface_counters" where
  "junos_counters phys traffic inErr outErr c =
     (let traffic = (if traffic = '''' then phys else traffic);
          c = c\<lparr>InPackets := firstUint reInPackets traffic, OutPackets := firstUint reOutPackets traffic,
                InBytes := firstUint reInBytes traffic, OutBytes := firstUint reOutBytes traffic\<rparr>;
          c = (if match_string reBareErrors inErr \<or> match_string reBareDrops inErr
               then c\<lparr>InErrors := firstUint reBareErrors inErr, InDrops := firstUint reBareDrops inErr\<rparr>
               else c\<lparr>InErrors := firstUint reCompactInErr phys\<rparr>)
      in if match_string reBareErrors outErr \<or> match_string reBareDrops outErr
         then c\<lparr>OutErrors := firstUint reBareErrors outErr, OutDrops := firstUint reBareDrops outErr\<rparr>
         else c\<lparr>OutErrors := firstUint reCompactOutErr phys\<rparr>)"

definition parseJunosIfaceBlock :: "string \<Rightarrow> iface_counters option option" where
  "parseJunosIfaceBlock block =
     do { phys \<leftarrow> cutAtFold block ''logical interface'';
          case find_submatch reJunosPhys phys of
            None \<Rightarrow> Some None
          | Some m \<Rightarrow>
              (let name = physicalIfd (m 1) in
               if name = '''' then Some None
               else do {
                 traffic \<leftarrow> sectionBetween phys ''traffic statistics:'' [''ipv6'', ''input errors:'', ''output errors:''];
                 inErr \<leftarrow> sectionBetween phys ''input errors:'' [''output errors:''];
                 outErr \<leftarrow> sectionBetween phys ''output errors:'' [];
                 Some (Some (junos_counters phys traffic inErr outErr
                   (zero_counters\<lparr>IfName := name, Admin := junosAdmin (m 2), Oper := junosOper (m 2)\<rparr>))) }) }"

fun all_blocks :: "(string \<Rightarrow> iface_counters option option) \<Rightarrow> string list \<Rightarrow> iface_counters list option" where
  "all_blocks f [] = Some []"
| "all_blocks f (b # bs) =
     do { c \<leftarrow> f b; cs \<leftarrow> all_blocks f bs; Some (case c of None \<Rightarrow> cs | Some c \<Rightarrow> c # cs) }"

definition parseJunosIfaces :: "string \<Rightarrow> iface_counters list option" where
  "parseJunosIfaces s =
     do { blocks \<leftarrow> splitMarkedBlocks s ''physical interface:''; all_blocks parseJunosIfaceBlock blocks }"

subsection \<open>Cisco\<close>

definition ciscoHeader :: "string list \<Rightarrow> bool" where
  "ciscoHeader fs =
     list_ex (\<lambda>f. to_lower f \<in> set [''inoctets'', ''inucastpkts'', ''outoctets'', ''outucastpkts'', ''fcs-err'',
                                  ''align-err'', ''xmit-err'', ''rcv-err'', ''outdiscards'']) fs"

definition normalizeCiscoCols :: "string list \<Rightarrow> string list" where
  "normalizeCiscoCols fs = map to_lower fs"

definition ciscoPort :: "string \<Rightarrow> bool" where
  "ciscoPort s =
     (if s = '''' then False
      else if to_lower s \<in> set [''port'', ''interface'', ''port-id''] then False
      else is_latin1_letter (byte_val (s ! 0)))"

text \<open>One column of a row: the counters and the sums of the packet columns so far.\<close>

definition cisco_cell ::
  "string \<Rightarrow> string \<Rightarrow> iface_counters \<times> 64 word \<times> 64 word \<Rightarrow> iface_counters \<times> 64 word \<times> 64 word" where
  "cisco_cell col field = (\<lambda>(c, inPkts, outPkts).
     (let (v, ok) = parseUint field in
      if \<not> ok then (c, inPkts, outPkts)
      else if col = ''inoctets'' then (c\<lparr>InBytes := v\<rparr>, inPkts, outPkts)
      else if col = ''outoctets'' then (c\<lparr>OutBytes := v\<rparr>, inPkts, outPkts)
      else if col \<in> set [''inucastpkts'', ''inmcastpkts'', ''inbcastpkts''] then (c, inPkts + v, outPkts)
      else if col \<in> set [''outucastpkts'', ''outmcastpkts'', ''outbcastpkts''] then (c, inPkts, outPkts + v)
      else if col = ''outdiscards'' then (c\<lparr>OutDrops := v\<rparr>, inPkts, outPkts)
      else if col \<in> set [''fcs-err'', ''align-err'', ''rcv-err''] then (c\<lparr>InErrors := InErrors c + v\<rparr>, inPkts, outPkts)
      else if col = ''xmit-err'' then (c\<lparr>OutErrors := OutErrors c + v\<rparr>, inPkts, outPkts)
      else (c, inPkts, outPkts)))"

fun cisco_cells ::
  "(string \<times> string) list \<Rightarrow> iface_counters \<times> 64 word \<times> 64 word \<Rightarrow> iface_counters \<times> 64 word \<times> 64 word" where
  "cisco_cells [] st = st"
| "cisco_cells ((col, field) # cells) st = cisco_cells cells (cisco_cell col field st)"

definition applyCiscoRow :: "iface_counters \<Rightarrow> string list \<Rightarrow> string list \<Rightarrow> iface_counters" where
  "applyCiscoRow c cols fs =
     (let (c, inPkts, outPkts) = cisco_cells (drop 1 (zip cols fs)) (c, 0, 0);
          c = (if inPkts > 0 then c\<lparr>InPackets := inPkts\<rparr> else c)
      in if outPkts > 0 then c\<lparr>OutPackets := outPkts\<rparr> else c)"

text \<open>The state of the loop over the lines; \<open>None\<close> is the nil slice of columns.\<close>

record cisco_state =
  byName :: "(string, iface_counters) gomap"
  order :: "string list"
  cols :: "string list option"

definition cisco_line :: "string \<Rightarrow> cisco_state \<Rightarrow> cisco_state" where
  "cisco_line line st =
     (let fs = str_fields line in
      if length fs < 2 then st\<lparr>cols := None\<rparr>
      else if ciscoHeader fs then st\<lparr>cols := Some (normalizeCiscoCols fs)\<rparr>
      else case cols st of
        None \<Rightarrow> st
      | Some cs \<Rightarrow>
          if \<not> ciscoPort (fs ! 0) then st
          else let name = physicalIfd (fs ! 0) in
            if name = '''' then st
            else let st = (if map_get (byName st) name = None
                           then st\<lparr>byName := map_put name (zero_counters\<lparr>IfName := name\<rparr>) (byName st),
                                   order := order st @ [name]\<rparr>
                           else st)
              in (case map_get (byName st) name of
                    Some c \<Rightarrow> st\<lparr>byName := map_put name (applyCiscoRow c cs fs) (byName st)\<rparr>
                  | None \<Rightarrow> st))"

definition cisco_start :: cisco_state where
  "cisco_start = \<lparr>byName = [], order = [], cols = None\<rparr>"

definition parseCiscoIfaces :: "string \<Rightarrow> iface_counters list" where
  "parseCiscoIfaces s =
     (let st = foldl (\<lambda>st line. cisco_line line st) cisco_start (lines s) in
      if length (order st) = 0 then []
      else List.map_filter (\<lambda>name. map_get (byName st) name) (order st))"

subsection \<open>Huawei\<close>

definition huaweiState :: "string \<Rightarrow> string \<times> string" where
  "huaweiState s =
     (let l = to_lower (trim_space s) in
      if contains l ''administratively'' then (''down'', ''down'')
      else if has_prefix l ''up'' then (''up'', ''up'')
      else if has_prefix l ''down'' then (''up'', ''down'')
      else ('''', ''''))"

text \<open>One line of \<open>applyHuaweiErrDrops\<close>, with the direction of the last section header.\<close>

definition huawei_line :: "string \<Rightarrow> string \<times> iface_counters \<Rightarrow> string \<times> iface_counters" where
  "huawei_line line = (\<lambda>(last, c).
     (let ll = to_lower line;
          last = (if contains ll ''input:'' then ''in'' else if contains ll ''output:'' then ''out'' else last)
      in if last = '''' then (last, c)
         else
           let c = (case find_submatch reHuaweiErrors line of
                      None \<Rightarrow> c
                    | Some em \<Rightarrow> if last = ''in'' then c\<lparr>InErrors := mustUint (em 1)\<rparr>
                                else c\<lparr>OutErrors := mustUint (em 1)\<rparr>);
               c = (case find_submatch reHuaweiDrops line of
                      None \<Rightarrow> c
                    | Some dm \<Rightarrow> if last = ''in'' then c\<lparr>InDrops := mustUint (dm 1)\<rparr>
                                else c\<lparr>OutDrops := mustUint (dm 1)\<rparr>)
           in (last, c)))"

definition applyHuaweiErrDrops :: "iface_counters \<Rightarrow> string \<Rightarrow> iface_counters" where
  "applyHuaweiErrDrops c block = snd (foldl (\<lambda>st line. huawei_line line st) ('''', c) (lines block))"

definition parseHuaweiIfaceBlock :: "string \<Rightarrow> iface_counters option" where
  "parseHuaweiIfaceBlock block =
     (case find_submatch reHuaweiHeader block of
        None \<Rightarrow> None
      | Some m \<Rightarrow>
          (let name = physicalIfd (m 1) in
           if name = '''' then None
           else
             let (admin, oper) = huaweiState (m 2);
                 c = zero_counters\<lparr>IfName := name, Admin := admin, Oper := oper\<rparr>;
                 c = (case find_submatch reHuaweiInput block of
                        None \<Rightarrow> c
                      | Some i \<Rightarrow> c\<lparr>InPackets := mustUint (i 1), InBytes := mustUint (i 2)\<rparr>);
                 c = (case find_submatch reHuaweiOutput block of
                        None \<Rightarrow> c
                      | Some ou \<Rightarrow> c\<lparr>OutPackets := mustUint (ou 1), OutBytes := mustUint (ou 2)\<rparr>)
             in Some (applyHuaweiErrDrops c block)))"

text \<open>The offsets of the headers are offsets of the text itself, so that no slice is out of range.\<close>

fun header_blocks :: "string \<Rightarrow> nat list \<Rightarrow> string list" where
  "header_blocks s [] = []"
| "header_blocks s [a] = [drop a s]"
| "header_blocks s (a # a' # as) = take (a' - a) (drop a s) # header_blocks s (a' # as)"

definition splitHuaweiIfaceBlocks :: "string \<Rightarrow> string list" where
  "splitHuaweiIfaceBlocks s = header_blocks s (find_all_index reHuaweiHeader s)"

definition parseHuaweiIfaces :: "string \<Rightarrow> iface_counters list" where
  "parseHuaweiIfaces s = List.map_filter parseHuaweiIfaceBlock (splitHuaweiIfaceBlocks s)"

subsection \<open>The parser and the commands\<close>

definition parseIfaces :: "string \<Rightarrow> iface_counters list option" where
  "parseIfaces s =
     (if trim_space s = '''' then Some []
      else let l = to_lower s in
        if contains l ''physical interface:'' then parseJunosIfaces s
        else if contains l ''inucastpkts'' \<or> contains l ''inoctets'' then Some (parseCiscoIfaces s)
        else if contains l ''current state'' \<and> contains l ''input:'' then Some (parseHuaweiIfaces s)
        else Some [])"

definition ifaceCommands :: "string list" where
  "ifaceCommands =
    [''show interfaces statistics'', ''cli show interfaces statistics'', ''show interfaces counters'',
     ''display interface'']"

definition gatherIfaces :: "('w \<Rightarrow> bool) \<Rightarrow> 'w runner \<Rightarrow> 'w \<Rightarrow> string option \<times> 'w" where
  "gatherIfaces ctx_err r =
     gather_first ctx_err r (\<lambda>out. map_option (\<lambda>cs. length cs > 0) (parseIfaces out)) ifaceCommands"

subsection \<open>Slices of ASCII text\<close>

abbreviation ascii :: "string \<Rightarrow> bool" where
  "ascii s \<equiv> list_all is_ascii s"

lemma has_prefix_length: "has_prefix s p \<Longrightarrow> length p \<le> length s"
  by (auto simp: has_prefix_iff)

lemma index_of_bound: "index_of s sub = Some i \<Longrightarrow> i + length sub \<le> length s"
proof (induction s arbitrary: i)
  case (Cons c s)
  show ?case
  proof (cases "has_prefix (c # s) sub")
    case True
    then show ?thesis
      using Cons.prems has_prefix_length[OF True] by simp
  next
    case False
    then show ?thesis
      using Cons by auto
  qed
qed (auto split: if_splits)

lemma slice_str_Some: "a \<le> b \<Longrightarrow> b \<le> length s \<Longrightarrow> \<exists>t. slice_str s a b = Some t \<and> set t \<subseteq> set s"
  unfolding slice_str_def by (auto dest: in_set_takeD in_set_dropD)

lemma ascii_sub: "ascii s \<Longrightarrow> set t \<subseteq> set s \<Longrightarrow> ascii t"
  by (auto simp: list_all_iff)

lemma index_to_lower: "ascii s \<Longrightarrow> index_of (to_lower s) m = Some i \<Longrightarrow> i + length m \<le> length s"
  using index_of_bound[of "to_lower s" m i] by (simp add: to_lower_length)

lemma cutAtFold_ascii: "ascii s \<Longrightarrow> \<exists>t. cutAtFold s mark = Some t \<and> ascii t"
proof (cases "index_of (to_lower s) (to_lower mark)")
  case (Some i)
  assume "ascii s"
  then have "i \<le> length s"
    using index_to_lower[OF _ Some] by simp
  then show ?thesis
    using slice_str_Some[of 0 i s] ascii_sub[OF \<open>ascii s\<close>] Some by (auto simp: cutAtFold_def)
qed (simp add: cutAtFold_def)

lemma section_end_le: "section_end lb ends n \<le> n"
proof (induction ends arbitrary: n)
  case (Cons e ends)
  let ?m = "if e = '''' then n else case index_of lb (to_lower e) of Some j \<Rightarrow> if j < n then j else n | None \<Rightarrow> n"
  have "section_end lb (e # ends) n = section_end lb ends ?m"
    unfolding section_end_def by simp
  moreover have "?m \<le> n"
    by (auto split: option.splits)
  ultimately show ?case
    using Cons.IH[of ?m] by simp
qed (simp add: section_end_def)

lemma sectionBetween_ascii: "ascii s \<Longrightarrow> sectionBetween s start ends \<noteq> None"
proof (cases "index_of (to_lower s) (to_lower start)")
  case (Some i)
  assume "ascii s"
  then have i: "i + length (to_lower start) \<le> length s"
    using index_to_lower[OF _ Some] by simp
  let ?body = "drop (i + length (to_lower start)) s"
  have "slice_str s (i + length (to_lower start)) (length s) = Some ?body"
    using i by (simp add: slice_str_def)
  moreover have "slice_str ?body 0 (section_end (to_lower ?body) ends (length ?body)) \<noteq> None"
    using section_end_le[of "to_lower ?body" ends "length ?body"] slice_str_Some by blast
  ultimately show ?thesis
    using Some by (simp add: sectionBetween_def Let_def)
qed (simp add: sectionBetween_def)

lemma mark_starts_ok:
  "sorted (mark_starts mark idx rest) \<and> (\<forall>a \<in> set (mark_starts mark idx rest). idx \<le> a \<and> a \<le> idx + length rest)"
proof (induction mark idx rest rule: mark_starts.induct)
  case (1 mark idx rest)
  show ?case
  proof (cases "mark = [] \<or> index_of rest mark = None")
    case True
    then have "mark_starts mark idx rest = []"
      by (subst mark_starts.simps) auto
    then show ?thesis
      by simp
  next
    case False
    then obtain i where i: "index_of rest mark = Some i" "mark \<noteq> []"
      by auto
    let ?n = "idx + i + length mark" and ?r = "drop (i + length mark) rest"
    have eq: "mark_starts mark idx rest = (idx + i) # mark_starts mark ?n ?r"
      using i by (subst mark_starts.simps) simp
    have b: "i + length mark \<le> length rest"
      by (rule index_of_bound[OF i(1)])
    have "sorted (mark_starts mark ?n ?r)" "\<forall>a \<in> set (mark_starts mark ?n ?r). ?n \<le> a \<and> a \<le> ?n + length ?r"
      using "1.IH"[OF i(2,1)] by simp_all
    then show ?thesis
      unfolding eq using b by fastforce
  qed
qed

lemma cut_blocks_ok:
  "sorted as \<Longrightarrow> \<forall>a \<in> set as. a \<le> length s \<Longrightarrow> \<exists>bs. cut_blocks s as = Some bs \<and> (\<forall>b \<in> set bs. set b \<subseteq> set s)"
proof (induction s as rule: cut_blocks.induct)
  case (2 s a)
  then show ?case
    using slice_str_Some[of a "length s" s] by auto
next
  case (3 s a a' as)
  then obtain b bs where "slice_str s a a' = Some b" "set b \<subseteq> set s" "cut_blocks s (a' # as) = Some bs"
    "\<forall>b \<in> set bs. set b \<subseteq> set s"
    using slice_str_Some[of a a' s] by auto
  then show ?case
    by auto
qed simp

lemma splitMarkedBlocks_ascii: "ascii s \<Longrightarrow> \<exists>bs. splitMarkedBlocks s mark = Some bs \<and> (\<forall>b \<in> set bs. ascii b)"
  using mark_starts_ok[of "to_lower mark" 0 "to_lower s"] cut_blocks_ok[of "mark_starts (to_lower mark) 0 (to_lower s)" s]
    ascii_sub[of s] unfolding splitMarkedBlocks_def Let_def by (auto simp: to_lower_length)

lemma all_blocks_total: "\<forall>b \<in> set bs. f b \<noteq> None \<Longrightarrow> all_blocks f bs \<noteq> None"
  by (induction bs) auto

lemma parseJunosIfaceBlock_ascii: "ascii b \<Longrightarrow> parseJunosIfaceBlock b \<noteq> None"
proof -
  assume "ascii b"
  then obtain phys where "cutAtFold b ''logical interface'' = Some phys" "ascii phys"
    using cutAtFold_ascii by blast
  then show ?thesis
    unfolding parseJunosIfaceBlock_def
    by (auto simp: Let_def sectionBetween_ascii split: option.splits Option.bind_splits)
qed

lemma parseJunosIfaces_ascii: "ascii s \<Longrightarrow> parseJunosIfaces s \<noteq> None"
proof -
  assume "ascii s"
  then obtain bs where "splitMarkedBlocks s ''physical interface:'' = Some bs" "\<forall>b \<in> set bs. ascii b"
    using splitMarkedBlocks_ascii by blast
  then show ?thesis
    using all_blocks_total[of bs parseJunosIfaceBlock] parseJunosIfaceBlock_ascii unfolding parseJunosIfaces_def by simp
qed

subsection \<open>Names of ports\<close>

lemma junos_counters_name: "IfName (junos_counters phys traffic i ou c) = IfName c"
  by (simp add: junos_counters_def Let_def)

lemma all_blocks_set: "all_blocks f bs = Some cs \<Longrightarrow> c \<in> set cs \<Longrightarrow> \<exists>b. f b = Some (Some c)"
  by (induction bs arbitrary: cs) (auto split: Option.bind_splits option.splits)

lemma parseJunosIfaceBlock_name: "parseJunosIfaceBlock b = Some (Some c) \<Longrightarrow> IfName c \<noteq> []"
  unfolding parseJunosIfaceBlock_def
  by (auto simp: Let_def junos_counters_name split: Option.bind_splits option.splits if_splits)

lemma huawei_line_name: "IfName (snd (huawei_line line st)) = IfName (snd st)"
  by (cases st) (auto simp: huawei_line_def Let_def split: option.splits)

lemma applyHuaweiErrDrops_name: "IfName (applyHuaweiErrDrops c block) = IfName c"
proof -
  have "IfName (snd (foldl (\<lambda>st line. huawei_line line st) st ls)) = IfName (snd st)" for st ls
    by (induction ls arbitrary: st) (simp_all add: huawei_line_name)
  then show ?thesis
    by (simp add: applyHuaweiErrDrops_def)
qed

lemma parseHuaweiIfaceBlock_name: "parseHuaweiIfaceBlock b = Some c \<Longrightarrow> IfName c \<noteq> []"
  unfolding parseHuaweiIfaceBlock_def
  by (auto simp: Let_def applyHuaweiErrDrops_name split: option.splits if_splits prod.splits)

lemma cisco_cell_name: "IfName (fst (cisco_cell col f st)) = IfName (fst st)"
  by (cases st) (auto simp: cisco_cell_def Let_def split: prod.splits)

lemma cisco_cells_name: "IfName (fst (cisco_cells cells st)) = IfName (fst st)"
  by (induction cells st rule: cisco_cells.induct) (simp_all add: cisco_cell_name)

lemma applyCiscoRow_name: "IfName (applyCiscoRow c cs fs) = IfName c"
  using cisco_cells_name[of "drop 1 (zip cs fs)" "(c, 0, 0)"]
  by (auto simp: applyCiscoRow_def Let_def split: prod.splits)

text \<open>The invariant of the Cisco loop: the rows are in the order of their names, one for each.\<close>

definition cisco_ok :: "cisco_state \<Rightarrow> bool" where
  "cisco_ok st \<longleftrightarrow>
     map fst (byName st) = order st \<and> distinct (order st) \<and> (\<forall>(k, c) \<in> set (byName st). IfName c = k \<and> k \<noteq> [])"

lemma map_put_keys: "map fst (map_put k v m) = (if k \<in> fst ` set m then map fst m else map fst m @ [k])"
  by (induction m) auto

lemma cisco_ok_put:
  assumes "cisco_ok st" "map_get (byName st) name = Some c" "IfName c' = IfName c"
  shows "cisco_ok (st\<lparr>byName := map_put name c' (byName st)\<rparr>)"
proof -
  have mem: "(name, c) \<in> set (byName st)"
    using assms(2) by (rule map_of_SomeD)
  then have "name \<in> fst ` set (byName st)" "IfName c' = name \<and> name \<noteq> []"
    using assms(1,3) by (force, auto simp: cisco_ok_def)
  then show ?thesis
    using assms(1) set_put_subset[of name c' "byName st"] by (auto simp: cisco_ok_def map_put_keys)
qed

lemma cisco_ok_new:
  assumes "cisco_ok st" "map_get (byName st) name = None" "name \<noteq> []"
  shows "cisco_ok (st\<lparr>byName := map_put name (zero_counters\<lparr>IfName := name\<rparr>) (byName st), order := order st @ [name]\<rparr>)"
proof -
  have "name \<notin> fst ` set (byName st)"
    using assms(2) by (simp add: map_get_keys)
  moreover have "fst ` set (byName st) = set (order st)"
    using assms(1) unfolding cisco_ok_def by (metis set_map)
  ultimately show ?thesis
    using assms(1,3) set_put_subset[of name "zero_counters\<lparr>IfName := name\<rparr>" "byName st"]
    by (auto simp: cisco_ok_def map_put_keys)
qed

lemma cisco_ok_cols: "cisco_ok (st\<lparr>cols := x\<rparr>) \<longleftrightarrow> cisco_ok st"
  by (simp add: cisco_ok_def)

lemma cisco_line_ok:
  assumes "cisco_ok st"
  shows "cisco_ok (cisco_line line st)"
proof (cases "length (str_fields line) < 2 \<or> ciscoHeader (str_fields line)")
  case True
  then have "\<exists>x. cisco_line line st = st\<lparr>cols := x\<rparr>"
    by (auto simp: cisco_line_def Let_def)
  then show ?thesis
    using assms cisco_ok_cols by metis
next
  case no_head: False
  let ?fs = "str_fields line" and ?name = "physicalIfd (str_fields line ! 0)"
  show ?thesis
  proof (cases "cols st = None \<or> \<not> ciscoPort (?fs ! 0) \<or> ?name = []")
    case True
    then have "cisco_line line st = st"
      using no_head by (auto simp: cisco_line_def Let_def split: option.splits)
    then show ?thesis
      using assms by simp
  next
    case False
    then obtain cs where cs: "cols st = Some cs" "ciscoPort (?fs ! 0)" "?name \<noteq> []"
      by auto
    show ?thesis
    proof (cases "map_get (byName st) ?name")
      case None
      let ?z = "zero_counters\<lparr>IfName := ?name\<rparr>"
      let ?st = "st\<lparr>byName := map_put ?name ?z (byName st), order := order st @ [?name]\<rparr>"
      have "cisco_line line st = ?st\<lparr>byName := map_put ?name (applyCiscoRow ?z cs ?fs) (byName ?st)\<rparr>"
        using no_head cs None by (simp add: cisco_line_def Let_def map_get_put)
      moreover have "map_get (byName ?st) ?name = Some ?z"
        by (simp add: map_get_put)
      ultimately show ?thesis
        using cisco_ok_put[OF cisco_ok_new[OF assms None cs(3)]] applyCiscoRow_name by metis
    next
      case (Some c)
      then have "cisco_line line st = st\<lparr>byName := map_put ?name (applyCiscoRow c cs ?fs) (byName st)\<rparr>"
        using no_head cs by (simp add: cisco_line_def Let_def)
      then show ?thesis
        using cisco_ok_put[OF assms Some] applyCiscoRow_name by metis
    qed
  qed
qed

lemma parseCiscoIfaces_ports:
  "distinct (map IfName (parseCiscoIfaces s)) \<and> (\<forall>c \<in> set (parseCiscoIfaces s). IfName c \<noteq> [])"
proof -
  define st where "st = foldl (\<lambda>st line. cisco_line line st) cisco_start (lines s)"
  have steps: "cisco_ok (foldl (\<lambda>st line. cisco_line line st) st0 ls)" if "cisco_ok st0" for st0 ls
    using that by (induction ls arbitrary: st0) (simp_all add: cisco_line_ok)
  have "cisco_ok cisco_start"
    by (simp add: cisco_ok_def cisco_start_def)
  then have ok: "cisco_ok st"
    unfolding st_def by (rule steps)
  have "map_get (byName st) k = Some c" if "(k, c) \<in> set (byName st)" for k c
    using that ok by (simp add: cisco_ok_def)
  then have found: "List.map_filter (\<lambda>k. map_get (byName st) k) (map fst xs) = map snd xs" if "set xs \<subseteq> set (byName st)" for xs
    using that by (induction xs) (auto simp: map_filter_simps)
  have keys: "order st = map fst (byName st)"
    using ok by (simp add: cisco_ok_def)
  have "parseCiscoIfaces s = map snd (byName st)"
    unfolding parseCiscoIfaces_def Let_def st_def[symmetric] keys found[OF order_refl] by simp
  moreover have "map (\<lambda>x. IfName (snd x)) (byName st) = map fst (byName st)"
    using ok by (intro map_cong) (auto simp: cisco_ok_def)
  then have "map IfName (map snd (byName st)) = order st"
    using keys by (simp add: comp_def)
  moreover have "\<forall>c \<in> set (map snd (byName st)). IfName c \<noteq> []" "distinct (order st)"
    using ok by (auto simp: cisco_ok_def)
  ultimately show ?thesis
    by simp
qed

subsection \<open>Sums of the columns of a row\<close>

definition col_sum :: "(string \<Rightarrow> bool) \<Rightarrow> (string \<times> string) list \<Rightarrow> 64 word" where
  "col_sum P cells = sum_list (map (\<lambda>(col, f). if P col \<and> snd (parseUint f) then fst (parseUint f) else 0) cells)"

definition in_col :: "string \<Rightarrow> bool" where
  "in_col col \<longleftrightarrow> col = ''inucastpkts'' \<or> col = ''inmcastpkts'' \<or> col = ''inbcastpkts''"

definition out_col :: "string \<Rightarrow> bool" where
  "out_col col \<longleftrightarrow> col = ''outucastpkts'' \<or> col = ''outmcastpkts'' \<or> col = ''outbcastpkts''"

definition in_err_col :: "string \<Rightarrow> bool" where
  "in_err_col col \<longleftrightarrow> col = ''fcs-err'' \<or> col = ''align-err'' \<or> col = ''rcv-err''"

lemma cisco_cell_sums:
  "fst (snd (cisco_cell col f st)) = fst (snd st) + col_sum in_col [(col, f)]"
  "snd (snd (cisco_cell col f st)) = snd (snd st) + col_sum out_col [(col, f)]"
  "InErrors (fst (cisco_cell col f st)) = InErrors (fst st) + col_sum in_err_col [(col, f)]"
  "OutErrors (fst (cisco_cell col f st)) = OutErrors (fst st) + col_sum (\<lambda>x. x = ''xmit-err'') [(col, f)]"
  "InPackets (fst (cisco_cell col f st)) = InPackets (fst st)"
  "OutPackets (fst (cisco_cell col f st)) = OutPackets (fst st)"
  by (cases st; cases "parseUint f";
      simp add: cisco_cell_def col_sum_def in_col_def out_col_def in_err_col_def)+

lemma cisco_cells_sums:
  "fst (snd (cisco_cells cells st)) = fst (snd st) + col_sum in_col cells \<and>
   snd (snd (cisco_cells cells st)) = snd (snd st) + col_sum out_col cells \<and>
   InErrors (fst (cisco_cells cells st)) = InErrors (fst st) + col_sum in_err_col cells \<and>
   OutErrors (fst (cisco_cells cells st)) = OutErrors (fst st) + col_sum (\<lambda>x. x = ''xmit-err'') cells \<and>
   InPackets (fst (cisco_cells cells st)) = InPackets (fst st) \<and>
   OutPackets (fst (cisco_cells cells st)) = OutPackets (fst st)"
proof (induction cells st rule: cisco_cells.induct)
  case (2 col f cells st)
  have "col_sum P ((col, f) # cells) = col_sum P [(col, f)] + col_sum P cells" for P
    by (simp add: col_sum_def)
  then show ?case
    using 2 cisco_cell_sums[of col f st] by (simp add: add.assoc)
qed (simp add: col_sum_def)

subsection \<open>Unit numbers\<close>

lemma last_index_None: "last_index s d = None \<longleftrightarrow> d \<notin> set s"
  by (induction s) (auto split: option.splits)

lemma last_index_append: "d \<notin> set t \<Longrightarrow> last_index (s @ d # t) d = Some (length s)"
  by (induction s) (simp_all add: last_index_None[THEN iffD2])

lemma runes_ascii: "ascii s \<Longrightarrow> runes s = map byte_val s"
proof (induction s)
  case (Cons c s)
  have "decode_rune (map byte_val (c # s)) = (byte_val c, 1)"
    using Cons.prems by (simp add: decode_rune_def is_ascii_def)
  then have "runes (c # s) = byte_val c # runes s"
    unfolding runes_def by simp
  then show ?case
    using Cons by simp
qed (simp add: runes_def)

lemma allDigits_iff: "ascii s \<Longrightarrow> allDigits s \<longleftrightarrow> s \<noteq> [] \<and> (\<forall>c \<in> set s. digit c \<noteq> None)"
  by (auto simp: allDigits_def runes_ascii list_all_iff digit_def not_less split: if_splits)

lemma digit_plain: "digit c \<noteq> None \<Longrightarrow> is_ascii c \<and> \<not> ascii_space c"
  by (auto simp: digit_def is_ascii_def ascii_space_def split: if_splits)

lemma latin1_lower:
  "to_lower (replicate 12 (CHR 0xE9) @ ''Physical interface:'') =
   concat (replicate 12 [CHR 0xEF, CHR 0xBF, CHR 0xBD]) @ ''physical interface:''"
proof -
  let ?t = "''Physical interface:''"
  have step: "runes (CHR 0xE9 # c # s) = 65533 # runes (c # s)" if "byte_val c < 128 \<or> c = CHR 0xE9" for c s
  proof -
    have "decode_rune (map byte_val (CHR 0xE9 # c # s)) = (65533, 1)"
      using that by (cases s) (auto simp: decode_rune_def rune_error_def cont_def byte_val_def)
    then show ?thesis
      unfolding runes_def by simp
  qed
  have many: "runes (replicate n (CHR 0xE9) @ c # s) = replicate n 65533 @ runes (c # s)" if "byte_val c < 128" for n c s
  proof (induction n)
    case (Suc n)
    then show ?case
      using that step[of c s] step[of "CHR 0xE9"] by (cases n) simp_all
  qed simp
  have "ascii ?t"
    by (simp add: is_ascii_def byte_val_def)
  then have rs: "runes (replicate 12 (CHR 0xE9) @ ?t) = replicate 12 65533 @ map byte_val ?t"
    using many[of "CHR ''P''" 12 "''hysical interface:''"] runes_ascii[of ?t] by (simp add: byte_val_def)
  have low: "unicode_lower 65533 = 65533"
    by code_simp
  have "encode_rune 65533 = [CHR 0xEF, CHR 0xBF, CHR 0xBD]"
    by code_simp
  moreover have "concat (map (\<lambda>r. encode_rune (unicode_lower r)) (map byte_val ?t)) = ''physical interface:''"
    by code_simp
  moreover have "\<not> ascii (replicate 12 (CHR 0xE9) @ ?t)"
    by (simp add: list_all_iff is_ascii_def byte_val_def)
  ultimately show ?thesis
    unfolding to_lower_def rs map_append concat_append map_replicate low by (simp only: if_False)
qed

lemma latin1_marks:
  "trim_space (replicate 12 (CHR 0xE9) @ ''Physical interface:'') \<noteq> ''''"
  "contains (to_lower (replicate 12 (CHR 0xE9) @ ''Physical interface:'')) ''physical interface:''"
  "splitMarkedBlocks (replicate 12 (CHR 0xE9) @ ''Physical interface:'') ''physical interface:'' = None"
proof -
  show "trim_space (replicate 12 (CHR 0xE9) @ ''Physical interface:'') \<noteq> ''''"
    by (rule trim_space_not_Nil) (simp_all add: numeral_eq_Suc space_at_def is_ascii_def byte_val_def unicode_space2_def unicode_space3_def)
  show "contains (to_lower (replicate 12 (CHR 0xE9) @ ''Physical interface:'')) ''physical interface:''"
    unfolding latin1_lower by (rule contains_append2) simp
  have "mark_starts ''physical interface:'' 0 (to_lower (replicate 12 (CHR 0xE9) @ ''Physical interface:'')) = [36]"
    unfolding latin1_lower by code_simp
  moreover have "to_lower ''physical interface:'' = ''physical interface:''"
    by code_simp
  ultimately show "splitMarkedBlocks (replicate 12 (CHR 0xE9) @ ''Physical interface:'') ''physical interface:'' = None"
    by (simp add: splitMarkedBlocks_def slice_str_def)
qed

lemma parseIfaces_forms:
  "parseIfaces s = Some [] \<or> parseIfaces s = parseJunosIfaces s \<or> parseIfaces s = Some (parseCiscoIfaces s) \<or>
   parseIfaces s = Some (parseHuaweiIfaces s)"
  by (simp add: parseIfaces_def Let_def)

subsection \<open>Properties\<close>

text \<open>C35.  Parsing the output of a device does not panic if the output is ASCII; it does panic on some other
  texts: the offset of a mark is looked up in the lower-cased text, in which every byte that is no
  UTF-8 has become three bytes, and may lie behind the end of the text itself.\<close>

theorem parseIfaces_panics:
  "(\<forall>s. ascii s \<longrightarrow> parseIfaces s \<noteq> None) \<and>
   parseIfaces (replicate 12 (CHR 0xE9) @ ''Physical interface:'') = None"
proof (intro conjI allI impI)
  fix s assume "ascii s"
  then show "parseIfaces s \<noteq> None"
    using parseJunosIfaces_ascii[of s] by (simp add: parseIfaces_def Let_def)
next
  show "parseIfaces (replicate 12 (CHR 0xE9) @ ''Physical interface:'') = None"
    using latin1_marks unfolding parseIfaces_def parseJunosIfaces_def Let_def by simp
qed

text \<open>C36.  Every port that is reported has a name, and a Cisco listing, in which a port occurs once in each
  of several tables, is folded into one row per port.\<close>

theorem parseIfaces_names:
  assumes "parseIfaces s = Some cs"
  shows "(\<forall>c \<in> set cs. IfName c \<noteq> []) \<and> (cs = parseCiscoIfaces s \<longrightarrow> distinct (map IfName cs))"
proof -
  consider "cs = []" | "parseJunosIfaces s = Some cs" | "cs = parseCiscoIfaces s" | "cs = parseHuaweiIfaces s"
    using assms parseIfaces_forms[of s] by auto
  then have "\<forall>c \<in> set cs. IfName c \<noteq> []"
  proof cases
    case 2
    then show ?thesis
      using all_blocks_set parseJunosIfaceBlock_name
      by (fastforce simp: parseJunosIfaces_def split: Option.bind_splits)
  next
    case 3
    then show ?thesis
      using parseCiscoIfaces_ports by simp
  next
    case 4
    then show ?thesis
      using parseHuaweiIfaceBlock_name
      by (auto simp: parseHuaweiIfaces_def map_filter_def)
  qed simp
  then show ?thesis
    using parseCiscoIfaces_ports by blast
qed

text \<open>What a row of a Cisco table adds to a port: error columns are added to the errors counted so
  far, packet columns are summed and replace the packets unless their sum is zero; all sums are
  those of 64-bit integers, which wrap around.  The first column, that of the name, and fields that
  are no numbers do not count.\<close>

lemma applyCiscoRow_sums:
  "let cells = drop 1 (zip cs fs) in
    InErrors (applyCiscoRow c cs fs) = InErrors c + col_sum in_err_col cells \<and>
    OutErrors (applyCiscoRow c cs fs) = OutErrors c + col_sum (\<lambda>x. x = ''xmit-err'') cells \<and>
    InPackets (applyCiscoRow c cs fs) = (if col_sum in_col cells \<noteq> 0 then col_sum in_col cells else InPackets c) \<and>
    OutPackets (applyCiscoRow c cs fs) = (if col_sum out_col cells \<noteq> 0 then col_sum out_col cells else OutPackets c)"
proof -
  obtain c' i' ou' where run: "cisco_cells (drop 1 (zip cs fs)) (c, 0, 0) = (c', i', ou')"
    using prod_cases3 by blast
  show ?thesis
    using cisco_cells_sums[of "drop 1 (zip cs fs)" "(c, 0, 0)"]
    unfolding applyCiscoRow_def run Let_def by (simp add: word_neq_0_conv)
qed

text \<open>The unit number of a logical port is dropped from its name, and only that: a name that does not
  end in a dot and digits is kept as it is.\<close>

lemma physicalIfd_unit:
  assumes "name \<noteq> []" "space_at name = 0" "ds \<noteq> []" "\<forall>c \<in> set ds. digit c \<noteq> None"
  shows "physicalIfd (name @ ''.'' @ ds) = name \<and>
    (CHR ''.'' \<notin> set name \<and> tidy name \<longrightarrow> physicalIfd name = name)"
proof
  let ?s = "name @ CHR ''.'' # ds"
  have ds: "ascii ds" "CHR ''.'' \<notin> set ds"
    using assms(4) digit_plain by (auto simp: list_all_iff digit_def byte_val_def)
  have "space_at ?s = 0"
    using assms(1,2) by (intro space_at_append_ascii) (simp_all add: is_ascii_def byte_val_def)
  moreover have "space_end (rev ?s) = 0"
    using assms(3,4) digit_plain space_ends_ascii by (cases ds rule: rev_cases) auto
  ultimately have "trim_space ?s = ?s"
    by (intro trim_space_tidy_id) (simp add: tidy_def)
  moreover have "last_index ?s (CHR ''.'') = Some (length name)"
    by (rule last_index_append[OF ds(2)])
  moreover have "allDigits ds"
    using allDigits_iff[OF ds(1)] assms(3,4) by simp
  ultimately show "physicalIfd (name @ ''.'' @ ds) = name"
    using assms(1,3) by (simp add: physicalIfd_def)
next
  show "CHR ''.'' \<notin> set name \<and> tidy name \<longrightarrow> physicalIfd name = name"
    using last_index_None[of name "CHR ''.''"] by (auto simp: physicalIfd_def)
qed

subsection \<open>Examples\<close>

definition demo_cisco :: string where
  "demo_cisco = join [CHR 0x0A] [''Port InOctets InUcastPkts'', ''Gi0/1 10 3'', '''', ''Port Align-Err Rcv-Err'', ''Gi0/1 1 2'']"

definition demo_port :: iface_counters where
  "demo_port = zero_counters\<lparr>IfName := ''Gi0/1'', InBytes := 10, InPackets := 3, InErrors := 3\<rparr>"

lemma demo_cisco_read: "parseIfaces demo_cisco = Some [demo_port]"
  by code_simp

theorem parseIfaces_names_witness: "IfName demo_port \<noteq> []"
  using parseIfaces_names[OF demo_cisco_read] by simp

theorem parseIfaces_panics_witness: "parseIfaces demo_cisco \<noteq> None"
  by (rule parseIfaces_panics[THEN conjunct1, rule_format]) code_simp

end
