(* ===== verification/SshCollect.thy ===== *)
theory SshCollect
  imports SshLldp SshIfaces SshHealth
begin

text \<open>
  \<open>internal/sshprobe/collect.go\<close>: the commands that identify a host, the reading of their output into
  the inventory, and \<open>collect\<close>, which puts the parts of the SSH stage together for one session.
\<close>

subsection \<open>Commands\<close>

definition execCommands :: "string list" where
  "execCommands =
    [''show system information'', ''cli show system information'', ''show version'', ''display version'',
     ''uname -a'', ''cat /etc/os-release'', ''hostname'', ''uptime'']"

definition shellCommands :: "string list" where
  "shellCommands =
    [''terminal length 0'', ''terminal pager 0'', ''screen-length 0 temporary'', ''show system information'',
     ''show version'', ''display version'']"

definition macCommands :: "string list" where
  "macCommands = [''show chassis mac-addresses'', ''cli show chassis mac-addresses'']"

subsection \<open>Patterns\<close>

definition version_rune :: "nat \<Rightarrow> bool" where
  "version_rune r \<longleftrightarrow> letter_digit r \<or> any_of ''.():/-'' r \<or> r = 383 \<or> r = 8490"

definition reCiscoVersion :: rx where
  "reCiscoVersion = rseq [cilit ''Version'', S1, RGroup 1 (RSeq (RSet dg) (plus_of version_rune))]"
definition reCiscoModel :: rx where
  "reCiscoModel =
     rseq [cilit ''cisco'', S1,
           RGroup 1 (ralt [RSeq (cilit ''WS-'') N1, rseq [cilit ''C'', D1, N1], RSeq (cilit ''ISR'') N1,
                           RSeq (cilit ''ASR'') N1, rseq [cilit ''N'', D1, N1], rseq [cilit ''Catalyst'', S1, N1]])]"
definition reModelNumber :: rx where
  "reModelNumber = rseq [cilit ''Model number'', S0, lit '':'', S0, RGroup 1 N1]"
definition reUptimeIOS :: rx where
  "reUptimeIOS = rseq [RBol, ROpt (RGroup 1 N1), S0, cilit ''uptime is '', RGroup 2 (plus_of (none_of [CHR 0x0D, CHR 0x0A]))]"
definition reHuaweiVer :: rx where
  "reHuaweiVer =
     rseq [cilit ''VRP'', RStar (none_of [CHR 0x0A]), cilit ''Version'', S1,
           RGroup 1 (RSeq N1 (ROpt (rseq [S1, lit ''('', plus_of (none_of '')''), lit '')''])))]"
definition reHuaweiModel :: rx where
  "reHuaweiModel = rseq [cilit ''HUAWEI'', S1, RGroup 1 (rseq [cilit ''S'', RSet dg, N1])]"
definition reUname :: rx where
  "reUname = rseq [RWordB, cilit ''Linux'', S1, RGroup 1 N1, S1, RGroup 2 N1]"
definition rePrettyName :: rx where
  "rePrettyName = rseq [RBol, lit ''PRETTY_NAME='', RGroup 1 (plus_of dot), REol]"
definition reLinuxUptime :: rx where
  "reLinuxUptime = rseq [RWordB, lit ''up'', S1, RGroup 1 (RLazy dot), lit '','', S1, D1, S1, lit ''user'', ROpt (lit ''s'')]"

definition labelled_word :: "string \<Rightarrow> rx" where
  "labelled_word a = rseq [RBol, cilit a, S0, RGroup 1 N1]"

definition reJunosModel :: rx where "reJunosModel = labelled_word ''Model:''"
definition reJunosVer :: rx where "reJunosVer = labelled_word ''Junos:''"
definition reJunosHost :: rx where "reJunosHost = labelled_word ''Hostname:''"
definition reJunosFamily :: rx where "reJunosFamily = labelled_word ''Family:''"

subsection \<open>Lines\<close>

definition hostnameOK :: "string \<Rightarrow> bool" where
  "hostnameOK name =
     (if name = '''' then False
      else if to_lower name \<in> set [''switch'', ''system'', ''router'', ''uptime''] then False else True)"

definition skipLine :: "string \<Rightarrow> bool" where
  "skipLine line =
     (if line = '''' then True
      else if has_prefix line ''%'' then True
      else let l = to_lower line in
        list_ex (contains l) [''not found'', ''invalid'', ''unknown command'', ''syntax error'',
                              ''permission denied'', ''command not''])"

definition host_line :: "string \<Rightarrow> bool" where
  "host_line line =
     (if line = '''' \<or> contains_any line [CHR '' '', CHR 0x09] then False
      else if skipLine line then False
      else if contains_any line ''/#$'' then False
      else hostnameOK line \<and> \<not> contains line ''='')"

definition standaloneHostname :: "string \<Rightarrow> string" where
  "standaloneHostname s =
     (case find host_line (map trim_space (lines s)) of Some line \<Rightarrow> line | None \<Rightarrow> '''')"

definition firstUsefulLine :: "string \<Rightarrow> string" where
  "firstUsefulLine s =
     (case find (\<lambda>line. \<not> skipLine line) (map trim_space (lines s)) of
        Some line \<Rightarrow> if length line > 80 then take 80 line else line
      | None \<Rightarrow> '''')"

definition looksLikeNetworkOS :: "string \<Rightarrow> bool" where
  "looksLikeNetworkOS s =
     list_ex (contains (to_lower s))
       [''cisco ios'', ''cisco nexus'', ''nx-os'', ''ios-xe'', ''ios xr'', ''huawei versatile'', ''vrp (r)'',
        ''aruba'', ''procurve'', ''comware'', ''mikrotik'', ''routeros'', ''junos'', ''juniper'']"

definition isNetworkDevice :: "sys_info \<Rightarrow> string \<Rightarrow> bool" where
  "isNetworkDevice info raw =
     (if looksLikeNetworkOS raw then True
      else let m = to_lower (Model info) in
        has_prefix m ''ws-'' \<or> has_prefix m ''c29'' \<or> has_prefix m ''ex'' \<or> contains m ''catalyst'')"

subsection \<open>The inventory\<close>

text \<open>\<open>find(&field, re, s)\<close>: the new value of the field and whether it was found.\<close>

definition find_field :: "rx \<Rightarrow> string \<Rightarrow> string \<Rightarrow> string \<times> bool" where
  "find_field re s old =
     (case find_submatch re s of
        None \<Rightarrow> (old, False)
      | Some m \<Rightarrow> let v = trim_space (m 1) in (v, v \<noteq> ''''))"

text \<open>The cases of a switch over \<open>find\<close>: the first pattern that is found; one that matches a blank still
  clears the field.\<close>

fun find_first :: "rx list \<Rightarrow> string \<Rightarrow> string \<Rightarrow> string" where
  "find_first [] s old = old"
| "find_first (re # res) s old = (let (v, ok) = find_field re s old in if ok then v else find_first res s v)"

definition in_cutset :: "string \<Rightarrow> char \<Rightarrow> bool" where
  "in_cutset cs c \<longleftrightarrow> c \<in> set cs"

definition trim_right_set :: "string \<Rightarrow> string \<Rightarrow> string" where
  "trim_right_set cs s = rev (dropWhile (in_cutset cs) (rev s))"

definition trim_set :: "string \<Rightarrow> string \<Rightarrow> string" where
  "trim_set cs s = trim_right_set cs (dropWhile (in_cutset cs) s)"

definition read_uptime_ios :: "string \<Rightarrow> sys_info \<Rightarrow> sys_info" where
  "read_uptime_ios s info =
     (case find_submatch reUptimeIOS s of
        None \<Rightarrow> info
      | Some m \<Rightarrow>
          let name = trim_space (m 1);
              info = (if hostnameOK name then info\<lparr>SysHostname := name\<rparr> else info)
          in info\<lparr>Uptime := trim_space (m 2)\<rparr>)"

definition read_labels :: "string \<Rightarrow> sys_info \<Rightarrow> sys_info" where
  "read_labels s info =
     (let info = info\<lparr>SysHostname := fst (find_field reJunosHost s (SysHostname info))\<rparr>;
          info = info\<lparr>Family := fst (find_field reJunosFamily s (Family info))\<rparr>;
          info = info\<lparr>Model := find_first [reJunosModel, reModelNumber, reCiscoModel, reHuaweiModel] s (Model info)\<rparr>;
          info = info\<lparr>Version := find_first [reJunosVer, reCiscoVersion, reHuaweiVer] s (Version info)\<rparr>
      in if Version info \<noteq> '''' then info\<lparr>Version := trim_right_set '','' (Version info)\<rparr> else info)"

definition read_linux :: "string \<Rightarrow> sys_info \<Rightarrow> sys_info" where
  "read_linux s info =
     (let info =
        (case find_submatch reUname s of
           None \<Rightarrow> info
         | Some m \<Rightarrow>
             let info = (if SysHostname info = '''' then info\<lparr>SysHostname := m 1\<rparr> else info)
             in if Version info = '''' then info\<lparr>Version := ''Linux '' @ m 2\<rparr> else info);
          info =
        (case find_submatch rePrettyName s of
           None \<Rightarrow> info
         | Some m \<Rightarrow>
             let pretty = trim_set [CHR 0x22, CHR 0x27] (trim_space (m 1));
                 info = (if Version info = '''' then info\<lparr>Version := pretty\<rparr> else info)
             in if Model info = '''' then info\<lparr>Model := pretty\<rparr> else info)
      in if Uptime info = '''' then
           (case find_submatch reLinuxUptime s of
              None \<Rightarrow> info
            | Some m \<Rightarrow> info\<lparr>Uptime := trim_space (m 1)\<rparr>)
         else info)"

definition parseSysInfo :: "string \<Rightarrow> sys_info" where
  "parseSysInfo s =
     (let info = read_linux s (read_labels s (read_uptime_ios s zero_info));
          info = (if SysHostname info = '''' then info\<lparr>SysHostname := standaloneHostname s\<rparr> else info)
      in if Version info = '''' then info\<lparr>Version := firstUsefulLine s\<rparr> else info)"

subsection \<open>The session\<close>

fun output_loop ::
  "('w \<Rightarrow> bool) \<Rightarrow> 'w runner \<Rightarrow> string list \<Rightarrow> string \<Rightarrow> bool \<Rightarrow> 'w \<Rightarrow> (string \<times> bool) \<times> 'w" where
  "output_loop ctx_err r [] b execOK w = ((b, execOK), w)"
| "output_loop ctx_err r (cmd # cmds) b execOK w =
     (if ctx_err w then ((b, execOK), w)
      else let ((out, err), w1) = rn_exec r cmdTimeout cmd w; out = trim_space out in
        if out = '''' then output_loop ctx_err r cmds b execOK w1
        else let b = (if length b > 0 then b @ [CHR 0x0A] else b) @ out in
          if looksLikeNetworkOS out then ((b, True), w1)
          else output_loop ctx_err r cmds b True w1)"

definition gatherOutput ::
  "('w \<Rightarrow> bool) \<Rightarrow> 'w runner \<Rightarrow> string list \<Rightarrow> string list \<Rightarrow> 'w \<Rightarrow> string \<times> 'w" where
  "gatherOutput ctx_err r exec shell w =
     (let ((b, execOK), w1) = output_loop ctx_err r exec '''' False w in
      if \<not> execOK \<and> length shell > 0 then
        let ((out, err), w2) = rn_shell r cmdTimeout shell w1; out = trim_space out
        in (if out \<noteq> '''' then b @ out else b, w2)
      else (b, w1))"

text \<open>The identification of the host: the text gathered, the inventory, the hardware address.\<close>

definition identify :: "('w \<Rightarrow> bool) \<Rightarrow> 'w runner \<Rightarrow> 'w \<Rightarrow> (string \<times> sys_info \<times> hwaddr) \<times> 'w" where
  "identify ctx_err r w =
     (let (raw, w1) = gatherOutput ctx_err r execCommands shellCommands w;
          info = parseSysInfo raw; mac = parseMAC raw
      in if mac = [] then
           let (extra, w2) = gatherOutput ctx_err r macCommands [] w1 in
           if extra \<noteq> '''' then
             let raw = raw @ [CHR 0x0A] @ extra;
                 info = (if Model info = '''' \<and> Version info = '''' then parseSysInfo raw else info)
             in ((raw, info, parseMAC raw), w2)
           else ((raw, info, mac), w2)
         else ((raw, info, mac), w1))"

text \<open>\<open>collect\<close>; \<open>None\<close> is a panic.\<close>

definition collect :: "('w \<Rightarrow> bool) \<Rightarrow> 'w runner \<Rightarrow> 'w \<Rightarrow> (sys_info \<times> bool \<times> hwaddr) option \<times> 'w" where
  "collect ctx_err r w =
     (let ((raw, info, mac), w1) = identify ctx_err r w; netDev = isNetworkDevice info raw in
      if netDev then
        let (health, w2) = gatherHealth ctx_err r w1; info = applyHealth info health;
            (lldp, w3) = gatherLLDP ctx_err r w2
        in case lldp of
             None \<Rightarrow> (None, w3)
           | Some lldp \<Rightarrow>
               (let info = info\<lparr>Neighbors := parseLLDP lldp\<rparr>; (ifaces, w4) = gatherIfaces ctx_err r w3 in
                case Option.bind ifaces parseIfaces of
                  None \<Rightarrow> (None, w4)
                | Some counters \<Rightarrow> (Some (info\<lparr>Interfaces := counters\<rparr>, netDev, mac), w4))
      else (Some (info, netDev, mac), w1))"

subsection \<open>Facts about the inventory\<close>

lemma firstUsefulLine_not_Nil:
  assumes "line \<in> set (lines s)" "\<not> skipLine (trim_space line)"
  shows "firstUsefulLine s \<noteq> []"
proof -
  have "trim_space line \<in> set (map trim_space (lines s))"
    using assms(1) by simp
  then obtain l where l: "find (\<lambda>line. \<not> skipLine line) (map trim_space (lines s)) = Some l"
    using assms(2) by (metis find_None_iff not_None_eq)
  then have "\<not> skipLine l"
    by (metis (mono_tags, lifting) find_Some_iff)
  then have "l \<noteq> []"
    by (auto simp: skipLine_def)
  then show ?thesis
    using l by (simp add: firstUsefulLine_def)
qed

text \<open>What the reading of the identification never sets.\<close>

definition no_load :: "sys_info \<Rightarrow> bool" where
  "no_load info \<longleftrightarrow> CPU info = [] \<and> Memory info = [] \<and> Temp info = [] \<and> Neighbors info = [] \<and>
     Interfaces info = [] \<and> User info = []"

lemma no_load_updates [simp]:
  "no_load (info\<lparr>SysHostname := x\<rparr>) = no_load info" "no_load (info\<lparr>Model := x\<rparr>) = no_load info"
  "no_load (info\<lparr>Version := x\<rparr>) = no_load info" "no_load (info\<lparr>Uptime := x\<rparr>) = no_load info"
  "no_load (info\<lparr>Family := x\<rparr>) = no_load info"
  by (simp_all add: no_load_def)

lemma no_load_zero [simp]: "no_load zero_info"
  by (simp add: no_load_def zero_info_def)

lemma no_load_reads:
  "no_load (read_uptime_ios s info) = no_load info" "no_load (read_labels s info) = no_load info"
  "no_load (read_linux s info) = no_load info"
  by (simp_all add: read_uptime_ios_def read_labels_def read_linux_def Let_def split: option.split)

lemma no_load_parse: "no_load (parseSysInfo s)"
  by (simp add: parseSysInfo_def Let_def no_load_reads)

lemma parseMAC_ok: "parseMAC s = [] \<or> length (parseMAC s) = 6 \<and> (\<exists>b \<in> set (parseMAC s). b \<noteq> 0)"
proof -
  have "\<exists>t. parseMAC s = parseHW t" if "parseMAC s \<noteq> []"
    using that by (auto simp: parseMAC_def Let_def split: option.splits if_splits)
  then show ?thesis
    using parseHW_ok by metis
qed

lemma identify_ok:
  assumes "identify ctx_err r w = ((raw, info, mac), w1)"
  shows "no_load info \<and> mac = parseMAC raw"
  using assms no_load_parse
  by (auto simp: identify_def Let_def split: prod.splits if_splits)

lemma collect_mac:
  assumes "collect ctx_err r w = (Some (info, netDev, mac), w')"
  shows "\<exists>raw. mac = parseMAC raw"
proof -
  obtain raw info0 mac0 w1 where i: "identify ctx_err r w = ((raw, info0, mac0), w1)"
    by (metis surj_pair)
  then show ?thesis
    using assms identify_ok[OF i] by (auto simp: collect_def Let_def split: if_splits prod.splits option.splits)
qed

subsection \<open>ASCII sessions\<close>

definition runner_ascii :: "'w runner \<Rightarrow> bool" where
  "runner_ascii r \<longleftrightarrow>
     (\<forall>d cmd w. ascii (fst (fst (rn_exec r d cmd w)))) \<and> (\<forall>d cmds w. ascii (fst (fst (rn_shell r d cmds w))))"

lemma ascii_trim: "ascii s \<Longrightarrow> ascii (trim_space s)"
  using ascii_sub set_trim_space by metis

lemma gather_loop_ascii:
  assumes "runner_ascii r" "\<And>s. ascii s \<Longrightarrow> good s \<noteq> None"
  shows "case fst (gather_loop ctx_err r good cmds worked w) of Returned out \<Rightarrow> ascii out | Ended b \<Rightarrow> True | Panicked \<Rightarrow> False"
proof (induction cmds arbitrary: worked w)
  case (Cons cmd cmds)
  obtain out err w1 where run: "rn_exec r cmdTimeout cmd w = ((out, err), w1)"
    by (metis surj_pair)
  then have out: "ascii (trim_space out)"
    using assms(1) ascii_trim unfolding runner_ascii_def by (metis fst_conv)
  then obtain b where b: "good (trim_space out) = Some b"
    using assms(2) by blast
  show ?case
    using Cons.IH run b out by (cases b) (simp_all add: Let_def)
qed simp

lemma gather_first_ascii:
  assumes "runner_ascii r" "\<And>s. ascii s \<Longrightarrow> good s \<noteq> None"
  shows "\<exists>out. fst (gather_first ctx_err r good cmds w) = Some out \<and> ascii out"
proof -
  have sh: "ascii (trim_space (fst (fst (rn_shell r d cs w'))))" for d cs w'
    using assms(1) ascii_trim unfolding runner_ascii_def by blast
  obtain g w1 where g: "gather_loop ctx_err r good cmds False w = (g, w1)"
    by (metis surj_pair)
  have ok: "case g of Returned out \<Rightarrow> ascii out | Ended b \<Rightarrow> True | Panicked \<Rightarrow> False"
    using gather_loop_ascii[where good = good, OF assms, where ctx_err = ctx_err and cmds = cmds and worked = False and w = w]
      g by simp
  show ?thesis
  proof (cases g)
    case (Ended worked)
    then show ?thesis
      using g sh by (auto simp: gather_first_def Let_def case_prod_beta)
  qed (use ok g in \<open>auto simp: gather_first_def\<close>)
qed

lemma parseIfaces_ascii: "ascii s \<Longrightarrow> parseIfaces s \<noteq> None"
  using parseJunosIfaces_ascii[of s] by (simp add: parseIfaces_def Let_def)

lemma collect_ifaces_ascii:
  assumes "runner_ascii r"
  shows "Option.bind (fst (gatherIfaces ctx_err r w)) parseIfaces \<noteq> None"
proof -
  have "\<And>s. ascii s \<Longrightarrow> map_option (\<lambda>cs. length cs > 0) (parseIfaces s) \<noteq> None"
    using parseIfaces_ascii by auto
  then obtain out where "fst (gatherIfaces ctx_err r w) = Some out" "ascii out"
    using gather_first_ascii[OF assms] unfolding gatherIfaces_def by metis
  then show ?thesis
    using parseIfaces_ascii by simp
qed

text \<open>A session with a device that writes ASCII does not panic, whatever it writes and whenever the scan
  is cancelled.\<close>

lemma collect_no_panic:
  assumes "runner_ascii r"
  shows "fst (collect ctx_err r w) \<noteq> None"
proof -
  have lldp: "fst (gatherLLDP ctx_err r w) \<noteq> None" for w
    unfolding gatherLLDP_def by (rule gather_first_total) simp
  have ifs: "Option.bind (fst (gatherIfaces ctx_err r w)) parseIfaces \<noteq> None" for w
    by (rule collect_ifaces_ascii[OF assms])
  obtain raw info mac w1 where i: "identify ctx_err r w = ((raw, info, mac), w1)"
    by (metis surj_pair)
  obtain h w2 where h: "gatherHealth ctx_err r w1 = (h, w2)"
    by (metis surj_pair)
  obtain l w3 where l: "gatherLLDP ctx_err r w2 = (Some l, w3)"
    using lldp[of w2] by (metis not_None_eq prod.collapse)
  obtain f w4 where f: "gatherIfaces ctx_err r w3 = (f, w4)"
    by (metis surj_pair)
  obtain cs where "Option.bind f parseIfaces = Some cs"
    using ifs[of w3] f by auto
  then show ?thesis
    using i h l f by (auto simp: collect_def Let_def)
qed

subsection \<open>Properties\<close>

text \<open>The version of the inventory is never left blank if any line of the output is of use, that is not
  blank and no error message: the first such line stands in for it.\<close>

lemma parseSysInfo_version:
  assumes "line \<in> set (lines s)" "\<not> skipLine (trim_space line)"
  shows "Version (parseSysInfo s) \<noteq> [] \<and> \<not> Empty (parseSysInfo s)"
  using firstUsefulLine_not_Nil[OF assms] by (simp add: parseSysInfo_def Let_def Empty_def)

text \<open>C37.  What a session yields: a hardware address of six bytes that are not all zero, or none; the load,
  the neighbours and the ports only for a network device; no user and no password.\<close>

theorem collect_yields:
  assumes "collect ctx_err r w = (Some (info, netDev, mac), w')"
  shows "(mac = [] \<or> length mac = 6 \<and> (\<exists>b \<in> set mac. b \<noteq> 0)) \<and> User info = [] \<and>
    (\<not> netDev \<longrightarrow> CPU info = [] \<and> Memory info = [] \<and> Temp info = [] \<and> Neighbors info = [] \<and> Interfaces info = [])"
proof -
  obtain raw info0 mac0 w1 where i: "identify ctx_err r w = ((raw, info0, mac0), w1)"
    by (metis surj_pair)
  have ok: "no_load info0" "mac0 = parseMAC raw"
    using identify_ok[OF i] by auto
  have "mac = mac0 \<and> User info = User info0 \<and> (\<not> netDev \<longrightarrow> info = info0)"
    using assms i by (auto simp: collect_def Let_def applyHealth_def split: if_splits prod.splits option.splits)
  then show ?thesis
    using ok parseMAC_ok by (auto simp: no_load_def)
qed

subsection \<open>A session\<close>

definition demo_runner :: "nat runner" where
  "demo_runner =
     \<lparr>rn_exec = (\<lambda>d cmd w. ((if cmd = ''hostname'' then ''web1'' else '''', None), Suc w)),
      rn_shell = (\<lambda>d cmds w. (('''', None), w)), rn_close = (\<lambda>w. w)\<rparr>"

definition demo_web :: sys_info where
  "demo_web = zero_info\<lparr>SysHostname := ''web1'', Version := ''web1''\<rparr>"

lemma demo_collect: "collect (\<lambda>w. False) demo_runner 0 = (Some (demo_web, False, []), 10)"
  by code_simp

lemma demo_runner_ascii: "runner_ascii demo_runner"
  by (simp add: runner_ascii_def demo_runner_def is_ascii_def byte_val_def)

theorem collect_yields_witness: "User demo_web = [] \<and> Neighbors demo_web = []"
  using collect_yields[OF demo_collect] by simp

end
