(* ===== verification/Envload.thy ===== *)
theory Envload
  imports GoStrings
begin

text \<open>
  \<open>internal/envload/envload.go\<close>: the \<open>.env\<close> file.  \<open>scan_lines\<close> is \<open>bufio.Scanner\<close> with its default
  split and its limit of 65536 bytes; the environment of the process is a finite map with the checks
  of \<open>os.Setenv\<close>.  The file is a parameter: it is missing, cannot be opened, or has contents that
  may end in a read error.  An error is its text.
\<close>

subsection \<open>The lines of a file\<close>

definition MaxScanTokenSize :: nat where
  "MaxScanTokenSize = 64 * 1024"

definition drop_cr :: "string \<Rightarrow> string" where
  "drop_cr s = (if s \<noteq> [] \<and> last s = CHR 0x0D then butlast s else s)"

text \<open>The pieces between newlines; nothing follows the last newline of a file that ends in one.\<close>

definition raw_lines :: "string \<Rightarrow> string list" where
  "raw_lines s = (let ls = split_on (CHR 0x0A) s in if last ls = [] then butlast ls else ls)"

text \<open>The tokens of the scanner, and the text of its error if it stops at a line too long.\<close>

fun scan_tokens :: "string list \<Rightarrow> string list \<times> bool" where
  "scan_tokens [] = ([], False)"
| "scan_tokens (l # ls) =
     (if length l < MaxScanTokenSize
      then (let (ts, long) = scan_tokens ls in (drop_cr l # ts, long))
      else ([], True))"

definition scan_lines :: "string \<Rightarrow> string option \<Rightarrow> string list \<times> string option" where
  "scan_lines s read_err =
     (let (ts, long) = scan_tokens (raw_lines s)
      in (ts, if long then Some ''bufio.Scanner: token too long'' else read_err))"

subsection \<open>Lines of the form \<open>KEY=VALUE\<close>\<close>

definition unquote :: "string \<Rightarrow> string" where
  "unquote s =
     (if length s \<ge> 2 then
        if s ! 0 = CHR 0x22 \<and> s ! (length s - 1) = CHR 0x22 \<or> s ! 0 = CHR 0x27 \<and> s ! (length s - 1) = CHR 0x27
        then take (length s - 2) (drop 1 s) else s
      else s)"

definition parseLine :: "string \<Rightarrow> string + string \<times> string" where
  "parseLine line =
     (case index_byte line (CHR ''='') of
        None \<Rightarrow> Inl ''expected KEY=VALUE''
      | Some i \<Rightarrow>
          if i = 0 then Inl ''expected KEY=VALUE''
          else let key = trim_space (take i line) in
            if key = [] then Inl ''empty key''
            else let val = trim_space (drop (i + 1) line); val = unquote val in Inr (key, val))"

text \<open>The lines that \<open>Parse\<close> passes over.\<close>

definition skip_env_line :: "string \<Rightarrow> bool" where
  "skip_env_line line \<longleftrightarrow> line = [] \<or> has_prefix line ''#''"

fun parse_env_lines ::
  "nat \<Rightarrow> string list \<Rightarrow> (string, string) gomap \<Rightarrow> string + (string, string) gomap" where
  "parse_env_lines lineNo [] out = Inr out"
| "parse_env_lines lineNo (t # ts) out =
     (let lineNo = lineNo + 1; line = trim_space t in
      if skip_env_line line then parse_env_lines lineNo ts out
      else case parseLine line of
             Inl err \<Rightarrow> Inl (''line '' @ dec lineNo @ '': '' @ err)
           | Inr (key, val) \<Rightarrow> parse_env_lines lineNo ts (map_put key val out))"

definition Parse :: "string \<Rightarrow> string option \<Rightarrow> string + (string, string) gomap" where
  "Parse s read_err =
     (let (ts, err) = scan_lines s read_err in
      case parse_env_lines 0 ts [] of
        Inl e \<Rightarrow> Inl e
      | Inr out \<Rightarrow> (case err of Some e \<Rightarrow> Inl e | None \<Rightarrow> Inr out))"

subsection \<open>The environment\<close>

type_synonym environ = "string \<Rightarrow> string option"

text \<open>\<open>os.Setenv\<close> on Unix: \<open>None\<close> on success.\<close>

definition setenv :: "string \<Rightarrow> string \<Rightarrow> environ \<Rightarrow> string option \<times> environ" where
  "setenv k v env =
     (if k = [] \<or> CHR ''='' \<in> set k \<or> CHR 0x00 \<in> set k \<or> CHR 0x00 \<in> set v
      then (Some ''setenv: invalid argument'', env) else (None, env(k \<mapsto> v)))"

definition lookupenv :: "environ \<Rightarrow> string \<Rightarrow> string option" where
  "lookupenv env k = (if k = [] then None else env k)"

definition getenv :: "environ \<Rightarrow> string \<Rightarrow> string" where
  "getenv env k = (case lookupenv env k of Some v \<Rightarrow> v | None \<Rightarrow> [])"

fun set_vars :: "(string \<times> string) list \<Rightarrow> environ \<Rightarrow> string option \<times> environ" where
  "set_vars [] env = (None, env)"
| "set_vars ((k, v) # vs) env =
     (if lookupenv env k \<noteq> None then set_vars vs env
      else case setenv k v env of
             (Some err, env1) \<Rightarrow> (Some err, env1)
           | (None, env1) \<Rightarrow> set_vars vs env1)"

datatype env_file = NotExist | OpenError string | Opened string "string option"

definition LoadFile ::
  "((string, string) gomap \<Rightarrow> (string, string) gomap) \<Rightarrow> (string \<Rightarrow> env_file) \<Rightarrow> string \<Rightarrow> environ \<Rightarrow>
   string option \<times> environ" where
  "LoadFile iter file path env =
     (case file path of
        NotExist \<Rightarrow> (None, env)
      | OpenError err \<Rightarrow> (Some err, env)
      | Opened contents read_err \<Rightarrow>
          (case Parse contents read_err of
             Inl err \<Rightarrow> (Some (path @ '': '' @ err), env)
           | Inr vars \<Rightarrow> set_vars (iter vars) env))"

definition LoadDefault ::
  "((string, string) gomap \<Rightarrow> (string, string) gomap) \<Rightarrow> (string \<Rightarrow> env_file) \<Rightarrow> environ \<Rightarrow>
   string option \<times> environ" where
  "LoadDefault iter file env = LoadFile iter file ''.env'' env"

subsection \<open>Comma-separated lists\<close>

definition CSV :: "string \<Rightarrow> string list" where
  "CSV s =
     (if trim_space s = [] then []
      else filter (\<lambda>p. p \<noteq> []) (map trim_space (split_on (CHR '','') s)))"

definition LookupCSV :: "environ \<Rightarrow> string \<Rightarrow> string list" where
  "LookupCSV env key = CSV (getenv env key)"

subsection \<open>Facts about the lines\<close>

lemma tidy_ends: "is_ascii a \<Longrightarrow> \<not> ascii_space a \<Longrightarrow> is_ascii b \<Longrightarrow> \<not> ascii_space b \<Longrightarrow> tidy (a # v @ [b])"
  by (simp add: tidy_def space_ends_ascii)

lemma quote_ascii: "is_ascii (CHR 0x22)" "\<not> ascii_space (CHR 0x22)" "is_ascii (CHR ''='')" "is_ascii (CHR '','')"
  by (simp_all add: go_str)

definition bad_env_line :: "string \<Rightarrow> bool" where
  "bad_env_line t \<longleftrightarrow>
     (let line = trim_space t in
      \<not> skip_env_line line \<and> (CHR ''='' \<notin> set line \<or> hd line = CHR ''=''))"

lemma parseLine_tidy:
  assumes "tidy line" "line \<noteq> []"
  shows "parseLine line =
    (if CHR ''='' \<notin> set line \<or> hd line = CHR ''='' then Inl ''expected KEY=VALUE''
     else let i = the (index_byte line (CHR ''='')) in
       Inr (trim_space (take i line), unquote (trim_space (drop (i + 1) line))))"
proof (cases "index_byte line (CHR ''='')")
  case None
  moreover have "CHR ''='' \<notin> set line"
    using None index_byte_None by metis
  ultimately show ?thesis
    by (simp add: parseLine_def)
next
  case (Some i)
  have i: "i < length line" "line ! i = CHR ''=''" "CHR ''='' \<notin> set (take i line)"
    using index_byte_Some[OF Some] by auto
  have mem: "CHR ''='' \<in> set line"
    using i by (metis nth_mem)
  show ?thesis
  proof (cases i)
    case 0
    then have "hd line = CHR ''=''"
      using i assms(2) by (simp add: hd_conv_nth)
    then show ?thesis
      using Some 0 by (simp add: parseLine_def)
  next
    case (Suc j)
    then have "hd line \<noteq> CHR ''=''"
      using i assms(2) by (cases line) auto
    moreover have "space_at (take i line) = 0"
      using space_at_prefix[of "take i line" "drop i line"] assms(1) by (simp add: tidy_def)
    then have "trim_space (take i line) \<noteq> []"
      using trim_space_not_Nil assms(2) Suc i(1) by (metis take_eq_Nil Zero_not_Suc)
    ultimately show ?thesis
      using Some Suc mem by (simp add: parseLine_def Let_def)
  qed
qed

lemma parseLine_ok:
  assumes "\<not> skip_env_line (trim_space t)"
  shows "parseLine (trim_space t) = Inl ''expected KEY=VALUE'' \<and> bad_env_line t \<or>
    (\<exists>k v. parseLine (trim_space t) = Inr (k, v) \<and> k \<noteq> [] \<and> CHR ''='' \<notin> set k \<and> \<not> bad_env_line t)"
proof (cases "bad_env_line t")
  case True
  then show ?thesis
    using parseLine_tidy[of "trim_space t"] assms by (auto simp: bad_env_line_def skip_env_line_def Let_def)
next
  case False
  let ?l = "trim_space t"
  have ne: "?l \<noteq> []"
    using assms by (simp add: skip_env_line_def)
  have eq: "CHR ''='' \<in> set ?l" "hd ?l \<noteq> CHR ''=''"
    using False assms unfolding bad_env_line_def Let_def by auto
  then obtain i where i: "index_byte ?l (CHR ''='') = Some i"
    using index_byte_None by fastforce
  have p: "parseLine ?l = Inr (trim_space (take i ?l), unquote (trim_space (drop (i + 1) ?l)))"
    using parseLine_tidy[OF tidy_trim_space ne] eq i by (simp add: Let_def)
  moreover have "trim_space (take i ?l) \<noteq> []"
    using p by (auto simp: parseLine_def i Let_def split: if_splits)
  moreover have "CHR ''='' \<notin> set (trim_space (take i ?l))"
    using index_byte_Some[OF i] set_trim_space[of "take i ?l"] by blast
  ultimately show ?thesis
    using False by blast
qed

lemma bad_not_skip: "bad_env_line t \<Longrightarrow> \<not> skip_env_line (trim_space t)"
  by (simp add: bad_env_line_def Let_def)

lemma parse_env_lines_ok:
  "\<forall>t \<in> set ts. \<not> bad_env_line t \<Longrightarrow>
   \<exists>m. parse_env_lines n ts out = Inr m \<and> (distinct_keys out \<longrightarrow> distinct_keys m) \<and>
     (\<forall>k. map_get m k \<noteq> None \<longrightarrow> map_get out k \<noteq> None \<or> k \<noteq> [] \<and> CHR ''='' \<notin> set k)"
proof (induction n ts out rule: parse_env_lines.induct)
  case (2 n t ts out)
  show ?case
  proof (cases "skip_env_line (trim_space t)")
    case True
    then show ?thesis
      using 2 by simp
  next
    case False
    then obtain k v where kv: "parseLine (trim_space t) = Inr (k, v)" "k \<noteq> []" "CHR ''='' \<notin> set k"
      using parseLine_ok[OF False] "2.prems" by auto
    have "\<exists>m. parse_env_lines (n + 1) ts (map_put k v out) = Inr m \<and> (distinct_keys (map_put k v out) \<longrightarrow> distinct_keys m) \<and>
     (\<forall>k'. map_get m k' \<noteq> None \<longrightarrow> map_get (map_put k v out) k' \<noteq> None \<or> k' \<noteq> [] \<and> CHR ''='' \<notin> set k')"
      using "2.IH"(2)[OF refl refl False kv(1) refl] "2.prems" by simp
    then show ?thesis
      using False kv by (auto simp: map_get_put split: if_splits)
  qed
qed simp

lemma parse_env_lines_bad:
  "i < length ts \<Longrightarrow> bad_env_line (ts ! i) \<Longrightarrow> \<forall>j < i. \<not> bad_env_line (ts ! j) \<Longrightarrow>
   parse_env_lines n ts out = Inl (''line '' @ dec (n + i + 1) @ '': expected KEY=VALUE'')"
proof (induction ts arbitrary: i n out)
  case (Cons t ts)
  show ?case
  proof (cases i)
    case 0
    then have "parseLine (trim_space t) = Inl ''expected KEY=VALUE''" "\<not> skip_env_line (trim_space t)"
      using Cons.prems(2) parseLine_ok bad_not_skip by auto
    then show ?thesis
      using 0 by simp
  next
    case (Suc j)
    have IH: "parse_env_lines (n + 1) ts m = Inl (''line '' @ dec (n + i + 1) @ '': expected KEY=VALUE'')" for m
    proof -
      have "\<forall>k < j. \<not> bad_env_line (ts ! k)"
        using Cons.prems(3) Suc by (metis Suc_less_eq nth_Cons_Suc)
      then show ?thesis
        using Cons.IH[of j "n + 1" m] Cons.prems Suc by simp
    qed
    have "\<not> bad_env_line t"
      using Cons.prems(3) Suc by force
    then have "skip_env_line (trim_space t) \<or> (\<exists>k v. parseLine (trim_space t) = Inr (k, v))"
      using parseLine_ok[of t] by blast
    then show ?thesis
      using IH by (auto simp: Let_def simp del: One_nat_def)
  qed
qed simp

subsection \<open>Facts about the environment\<close>

lemma setenv_ok: "setenv k v env = (None, env') \<Longrightarrow> env' = env(k \<mapsto> v)"
  by (auto simp: setenv_def split: if_splits)

lemma setenv_fail: "setenv k v env = (Some e, env') \<Longrightarrow> env' = env"
  by (auto simp: setenv_def split: if_splits)

lemma set_vars_Cons:
  "set_vars ((x, v) # vs) env =
     (if lookupenv env x \<noteq> None then set_vars vs env
      else if fst (setenv x v env) = None then set_vars vs (env(x \<mapsto> v))
      else (fst (setenv x v env), env))"
  using setenv_ok[of x v env] setenv_fail[of x v env] by (cases "setenv x v env") (auto split: option.splits)

declare set_vars.simps(2) [simp del]

lemma set_vars_keeps: "lookupenv env k \<noteq> None \<Longrightarrow> snd (set_vars vs env) k = env k"
proof (induction vs arbitrary: env)
  case (Cons e vs)
  obtain x v where e: "e = (x, v)"
    by (cases e)
  show ?case
  proof (cases "lookupenv env x \<noteq> None")
    case True
    then show ?thesis
      using Cons e by (simp add: set_vars_Cons)
  next
    case False
    then have "x \<noteq> k"
      using Cons.prems by auto
    moreover have "lookupenv (env(x \<mapsto> v)) k \<noteq> None"
      using Cons.prems by (auto simp: lookupenv_def)
    ultimately have "snd (set_vars vs (env(x \<mapsto> v))) k = env k"
      using Cons.IH by (metis fun_upd_other)
    then show ?thesis
      using False e by (simp add: set_vars_Cons)
  qed
qed simp

lemma set_vars_new:
  "fst (set_vars vs env) = None \<Longrightarrow> distinct_keys vs \<Longrightarrow> [] \<notin> fst ` set vs \<Longrightarrow> k \<noteq> [] \<Longrightarrow>
   snd (set_vars vs env) k = (if env k \<noteq> None then env k else map_get vs k)"
proof (induction vs arbitrary: env)
  case (Cons e vs)
  obtain x v where e: "e = (x, v)"
    by (cases e)
  have dk: "distinct_keys vs" "x \<notin> fst ` set vs" "x \<noteq> []"
    using Cons.prems e by (auto simp: distinct_keys_def)
  have none: "map_get vs x = None"
    using dk by (simp add: map_get_keys)
  show ?case
  proof (cases "lookupenv env x \<noteq> None")
    case True
    then have "snd (set_vars vs env) k = (if env k \<noteq> None then env k else map_get vs k)"
      using Cons e dk by (simp add: set_vars_Cons)
    then show ?thesis
      using True e dk by (auto simp: lookupenv_def set_vars_Cons)
  next
    case False
    then have x: "env x = None"
      using dk by (simp add: lookupenv_def)
    have run: "set_vars ((x, v) # vs) env = set_vars vs (env(x \<mapsto> v))"
      using Cons.prems(1) False e by (auto simp: set_vars_Cons split: if_splits)
    have "fst (set_vars vs (env(x \<mapsto> v))) = None"
      using Cons.prems(1) unfolding e run .
    then have "snd (set_vars vs (env(x \<mapsto> v))) k =
        (if (env(x \<mapsto> v)) k \<noteq> None then (env(x \<mapsto> v)) k else map_get vs k)"
      by (rule Cons.IH) (use dk Cons.prems in auto)
    then show ?thesis
      using run x none e by simp
  qed
qed simp

subsection \<open>Properties\<close>

text \<open>A file with one quoted variable per line, and what its keys and values may hold.\<close>

definition env_key_ok :: "string \<Rightarrow> bool" where
  "env_key_ok k \<longleftrightarrow> k \<noteq> [] \<and> tidy k \<and> hd k \<noteq> CHR ''#'' \<and> CHR ''='' \<notin> set k \<and> CHR 0x0A \<notin> set k"

definition render_line :: "string \<times> string \<Rightarrow> string" where
  "render_line = (\<lambda>(k, v). k @ ''='' @ [CHR 0x22] @ v @ [CHR 0x22])"

definition render :: "(string \<times> string) list \<Rightarrow> string" where
  "render vs = concat (map (\<lambda>e. render_line e @ [CHR 0x0A]) vs)"

definition env_entry_ok :: "string \<times> string \<Rightarrow> bool" where
  "env_entry_ok = (\<lambda>(k, v). env_key_ok k \<and> CHR 0x0A \<notin> set v \<and> length (render_line (k, v)) < MaxScanTokenSize)"

lemma render_lines:
  "list_all env_entry_ok vs \<Longrightarrow> split_on (CHR 0x0A) (render vs) = map render_line vs @ [[]]"
proof (induction vs)
  case (Cons e vs)
  have "CHR 0x0A \<notin> set (render_line e)"
    using Cons.prems by (cases e) (auto simp: env_entry_ok_def env_key_ok_def render_line_def)
  then show ?case
    using Cons split_on_append[of "CHR 0x0A" "render_line e" "render vs"] by (simp add: render_def)
qed (simp add: render_def)

lemma drop_cr_render: "drop_cr (render_line e) = render_line e"
  by (cases e) (simp add: drop_cr_def render_line_def)

lemma scan_render:
  "list_all env_entry_ok vs \<Longrightarrow> scan_tokens (map render_line vs) = (map render_line vs, False)"
  by (induction vs) (auto simp: env_entry_ok_def drop_cr_render)

lemma unquote_quoted: "unquote (CHR 0x22 # v @ [CHR 0x22]) = v"
  by (simp add: unquote_def nth_append)

lemma parse_rendered:
  assumes "env_entry_ok (k, v)"
  shows "\<not> skip_env_line (trim_space (render_line (k, v)))"
    "parseLine (trim_space (render_line (k, v))) = Inr (k, v)"
proof -
  let ?q = "CHR 0x22 # v @ [CHR 0x22]"
  have k: "k \<noteq> []" "tidy k" "hd k \<noteq> CHR ''#''" "CHR ''='' \<notin> set k"
    using assms by (auto simp: env_entry_ok_def env_key_ok_def)
  have line: "render_line (k, v) = k @ CHR ''='' # ?q"
    by (simp add: render_line_def)
  have "space_at (k @ CHR ''='' # ?q) = 0"
    using k quote_ascii by (intro space_at_append_ascii) (auto simp: tidy_def)
  then have t: "trim_space (render_line (k, v)) = k @ CHR ''='' # ?q"
    unfolding line by (simp add: tidy_def space_ends_ascii quote_ascii)
  show "\<not> skip_env_line (trim_space (render_line (k, v)))"
    unfolding t using k by (cases k) (simp_all add: skip_env_line_def)
  have "trim_space ?q = ?q"
    by (intro trim_space_tidy_id tidy_ends quote_ascii)
  moreover have "index_byte (k @ CHR ''='' # ?q) (CHR ''='') = Some (length k)"
    using index_byte_append[OF k(4)] .
  ultimately show "parseLine (trim_space (render_line (k, v))) = Inr (k, v)"
    unfolding t parseLine_def using k by (simp add: unquote_quoted[simplified])
qed

lemma map_put_new: "k \<notin> fst ` set m \<Longrightarrow> map_put k v m = m @ [(k, v)]"
  by (induction m) auto

lemma parse_env_rendered:
  "list_all env_entry_ok vs \<Longrightarrow> distinct_keys (out @ vs) \<Longrightarrow>
   parse_env_lines n (map render_line vs) out = Inr (out @ vs)"
proof (induction vs arbitrary: n out)
  case (Cons e vs)
  obtain k v where e: "e = (k, v)"
    by (cases e)
  have ok: "env_entry_ok (k, v)"
    using Cons.prems(1) e by simp
  have "map_put k v out = out @ [(k, v)]"
    using Cons.prems(2) e by (auto simp: distinct_keys_def intro!: map_put_new)
  then show ?case
    using Cons.IH[of "out @ [(k, v)]" "n + 1"] Cons.prems e parse_rendered[OF ok] by simp
qed simp

text \<open>C27.  A file written with one quoted \<open>KEY="VALUE"\<close> per line is read back as the same variables in
  the same order, whatever bytes but newlines the values hold.\<close>

theorem Parse_render:
  assumes "list_all env_entry_ok vs" "distinct_keys vs"
  shows "Parse (render vs) None = Inr vs"
proof -
  have "raw_lines (render vs) = map render_line vs"
    using render_lines[OF assms(1)] by (simp add: raw_lines_def)
  then have "scan_lines (render vs) None = (map render_line vs, None)"
    using scan_render[OF assms(1)] by (simp add: scan_lines_def)
  then show ?thesis
    using parse_env_rendered[OF assms(1), of "[]" 0] assms(2) by (simp add: Parse_def)
qed

text \<open>C29.  An error of \<open>Parse\<close> names the first line that is neither blank, nor a comment, nor of the form
  \<open>KEY=VALUE\<close>; without such a line only the reader or a line too long fails.  So an empty key is never
  reported: the branch for it cannot be reached.\<close>

theorem Parse_error:
  assumes "scan_lines s read_err = (ts, err)"
  shows "(\<forall>i < length ts. bad_env_line (ts ! i) \<and> (\<forall>j < i. \<not> bad_env_line (ts ! j)) \<longrightarrow>
      Parse s read_err = Inl (''line '' @ dec (i + 1) @ '': expected KEY=VALUE'')) \<and>
    ((\<forall>t \<in> set ts. \<not> bad_env_line t) \<longrightarrow>
      (case err of Some e \<Rightarrow> Parse s read_err = Inl e
       | None \<Rightarrow> \<exists>m. Parse s read_err = Inr m \<and> distinct_keys m \<and> [] \<notin> fst ` set m))"
proof (intro conjI allI impI)
  fix i assume "i < length ts" "bad_env_line (ts ! i) \<and> (\<forall>j < i. \<not> bad_env_line (ts ! j))"
  then have "parse_env_lines 0 ts [] = Inl (''line '' @ dec (i + 1) @ '': expected KEY=VALUE'')"
    using parse_env_lines_bad[of i ts 0 "[]"] by simp
  then show "Parse s read_err = Inl (''line '' @ dec (i + 1) @ '': expected KEY=VALUE'')"
    using assms by (simp add: Parse_def)
next
  assume "\<forall>t \<in> set ts. \<not> bad_env_line t"
  then obtain m where m: "parse_env_lines 0 ts [] = Inr m" "distinct_keys m"
    "\<forall>k. map_get m k \<noteq> None \<longrightarrow> k \<noteq> []"
    using parse_env_lines_ok[of ts 0 "[]"] by auto
  then have "[] \<notin> fst ` set m"
    using map_get_keys by metis
  then show "case err of Some e \<Rightarrow> Parse s read_err = Inl e
       | None \<Rightarrow> \<exists>m. Parse s read_err = Inr m \<and> distinct_keys m \<and> [] \<notin> fst ` set m"
    using m assms by (cases err) (simp_all add: Parse_def)
qed

lemma Parse_keys: "Parse s read_err = Inr m \<Longrightarrow> distinct_keys m \<and> [] \<notin> fst ` set m"
proof -
  assume p: "Parse s read_err = Inr m"
  obtain ts err where sc: "scan_lines s read_err = (ts, err)"
    by (cases "scan_lines s read_err")
  have out: "parse_env_lines 0 ts [] = Inr m" and "err = None"
    using p sc by (auto simp: Parse_def split: sum.splits option.splits)
  have "\<forall>t \<in> set ts. \<not> bad_env_line t"
  proof (rule ccontr)
    assume "\<not> (\<forall>t \<in> set ts. \<not> bad_env_line t)"
    then obtain i where "i < length ts" "bad_env_line (ts ! i)"
      by (metis in_set_conv_nth)
    then obtain i where "i < length ts" "bad_env_line (ts ! i)" "\<forall>j < i. \<not> bad_env_line (ts ! j)"
      using exists_least_iff[of "\<lambda>i. i < length ts \<and> bad_env_line (ts ! i)"] by (metis order.strict_trans)
    then show False
      using parse_env_lines_bad[of i ts 0 "[]"] out by simp
  qed
  then obtain m' where "parse_env_lines 0 ts [] = Inr m'" "distinct_keys m'" "\<forall>k. map_get m' k \<noteq> None \<longrightarrow> k \<noteq> []"
    using parse_env_lines_ok[of ts 0 "[]"] by auto
  then show "distinct_keys m \<and> [] \<notin> fst ` set m"
    using out by (simp add: map_get_keys) metis
qed

text \<open>C26.  Loading a file never changes a variable that is set, whatever the file holds and in whatever
  order its variables are visited; if it succeeds, every other variable has the value of the file.\<close>

theorem LoadFile_keeps:
  assumes "map_order iter"
  shows "(lookupenv env k \<noteq> None \<longrightarrow> snd (LoadFile iter file path env) k = env k) \<and>
    (\<forall>contents r m. file path = Opened contents r \<longrightarrow> Parse contents r = Inr m \<longrightarrow>
       fst (LoadFile iter file path env) = None \<longrightarrow> k \<noteq> [] \<longrightarrow>
       snd (LoadFile iter file path env) k = (if env k \<noteq> None then env k else map_get m k))"
proof (intro conjI impI allI)
  assume "lookupenv env k \<noteq> None"
  then show "snd (LoadFile iter file path env) k = env k"
    by (auto simp: LoadFile_def set_vars_keeps split: env_file.splits sum.splits)
next
  fix contents r m
  assume a: "file path = Opened contents r" "Parse contents r = Inr m"
    "fst (LoadFile iter file path env) = None" "k \<noteq> []"
  have run: "LoadFile iter file path env = set_vars (iter m) env"
    using a by (simp add: LoadFile_def)
  have m: "distinct_keys m" "[] \<notin> fst ` set m"
    using Parse_keys[OF a(2)] by simp_all
  have "map_get (iter m) k = map_get m k"
    using map_get_order[OF assms m(1)] map_order_set[OF assms] m(1)
    by (metis map_get_Some_iff option.exhaust)
  then show "snd (LoadFile iter file path env) k = (if env k \<noteq> None then env k else map_get m k)"
    using set_vars_new[of "iter m" env k] map_get_order[OF assms m(1)] map_order_set[OF assms, of m] m a(3,4)
    unfolding run by simp
qed

definition csv_item :: "string \<Rightarrow> bool" where
  "csv_item p \<longleftrightarrow> p \<noteq> [] \<and> tidy p \<and> CHR '','' \<notin> set p"

text \<open>C28.  The items of a comma-separated list are tidy, non-empty and free of commas, and a list of such
  items is read back from its printed form.\<close>

theorem CSV_items:
  "list_all csv_item (CSV s) \<and> (\<forall>ps. list_all csv_item ps \<longrightarrow> CSV (join '','' ps) = ps)"
proof (intro conjI allI impI)
  show "list_all csv_item (CSV s)"
    using split_on_free set_trim_space by (fastforce simp: CSV_def list_all_iff csv_item_def)
next
  fix ps assume ps: "list_all csv_item ps"
  show "CSV (join '','' ps) = ps"
  proof (cases ps)
    case Nil
    then show ?thesis
      by (simp add: CSV_def)
  next
    case (Cons p qs)
    have p: "p \<noteq> []" "space_at p = 0"
      using ps Cons by (auto simp: csv_item_def tidy_def)
    have "space_at (join '','' ps) = 0"
      using p Cons by (cases qs) (auto intro: space_at_append_ascii quote_ascii)
    moreover have "join '','' ps \<noteq> []"
      using p Cons by (cases qs) auto
    ultimately have "trim_space (join '','' ps) \<noteq> []"
      by (rule trim_space_not_Nil)
    moreover have "split_on (CHR '','') (join '','' ps) = ps"
      using ps Cons by (intro split_join) (auto simp: list_all_iff csv_item_def)
    moreover have "filter (\<lambda>p. p \<noteq> []) (map trim_space ps) = ps"
      using ps by (induction ps) (auto simp: csv_item_def)
    ultimately show ?thesis
      by (simp add: CSV_def)
  qed
qed

subsection \<open>Examples\<close>

lemma demo_entries: "list_all env_entry_ok [(''A'', ''x y=''), (''B_2'', '''')]"
  by (simp add: env_entry_ok_def env_key_ok_def render_line_def MaxScanTokenSize_def tidy_def go_str)

theorem Parse_render_witness: "Parse (render [(''A'', ''x y=''), (''B_2'', '''')]) None = Inr [(''A'', ''x y=''), (''B_2'', '''')]"
  by (rule Parse_render[OF demo_entries]) (simp add: distinct_keys_def)

lemma demo_scan: "scan_lines (''# c'' @ [CHR 0x0A] @ ''huh'' @ [CHR 0x0A]) None = ([''# c'', ''huh''], None)"
  by (simp add: scan_lines_def raw_lines_def MaxScanTokenSize_def drop_cr_def)

lemma demo_bad: "\<not> bad_env_line ''# c''" "bad_env_line ''huh''"
  by (simp_all add: bad_env_line_def skip_env_line_def go_str)

theorem Parse_error_witness:
  "Parse (''# c'' @ [CHR 0x0A] @ ''huh'' @ [CHR 0x0A]) None = Inl (''line '' @ dec (1 + 1) @ '': expected KEY=VALUE'')"
  using conjunct1[OF Parse_error[OF demo_scan], rule_format, of 1] demo_bad by simp

theorem LoadFile_keeps_witness:
  "snd (LoadFile rev (\<lambda>p. Opened (render [(''A'', ''x y=''), (''B_2'', '''')]) None) ''.env'' [''A'' \<mapsto> ''old'']) ''A'' = Some ''old''"
  using LoadFile_keeps[OF map_order_rev, of "[''A'' \<mapsto> ''old'']" "''A''"] by (simp add: lookupenv_def)

theorem CSV_items_witness: "CSV (join '','' [''root'', ''a b'']) = [''root'', ''a b'']"
  by (rule conjunct2[OF CSV_items, rule_format]) (simp add: csv_item_def tidy_def go_str)

end
