(* ===== verification/Sshprobe.thy ===== *)
theory Sshprobe
  imports SshCollect Envload Pipeline Oui
begin

text \<open>
  \<open>internal/sshprobe/sshprobe.go\<close>: the credentials, the probe of one host and the pool of workers that
  probes all targets.  The network is a parameter: whether a port is open, and the session that a
  login yields, if any.  The goroutines are a step relation, in which the probe of a host is one step
  of its worker.
\<close>

subsection \<open>Settings\<close>

definition defaultPort :: int where "defaultPort = 22"
definition defaultDialTimeout :: int where "defaultDialTimeout = 4 * 1000000000"
definition maxSSHWorkers :: int where "maxSSHWorkers = 8"

record ssh_config =
  Users :: "string list"
  Passwords :: "string list"
  Port :: int
  DialTimeout :: int

definition CredentialsFromEnv :: "environ \<Rightarrow> string list \<times> string list \<times> int" where
  "CredentialsFromEnv env =
     (let users = LookupCSV env ''SSH_USERS'';
          passwords = LookupCSV env ''SSH_PASSWORDS'';
          s = getenv env ''SSH_PORT'';
          port = (if s \<noteq> '''' then
                    (case atoi s of
                       Some n \<Rightarrow> if n > 0 \<and> n < 65536 then n else defaultPort
                     | None \<Rightarrow> defaultPort)
                  else defaultPort)
      in (users, passwords, port))"

definition ssh_port :: "ssh_config \<Rightarrow> int" where
  "ssh_port m = (if Port m \<le> 0 then defaultPort else Port m)"

definition dialTimeout :: "ssh_config \<Rightarrow> int" where
  "dialTimeout m = (if DialTimeout m \<le> 0 then defaultDialTimeout else DialTimeout m)"

definition sshWorkers :: "int \<Rightarrow> int \<Rightarrow> int" where
  "sshWorkers reqWorkers ntargets =
     (let w = reqWorkers;
          w = (if w \<le> 0 \<or> w > maxSSHWorkers then maxSSHWorkers else w);
          w = (if ntargets > 0 \<and> w > ntargets then ntargets else w)
      in if w < 1 then 1 else w)"

definition tcp_timeout :: "int \<Rightarrow> int" where
  "tcp_timeout t = (if t \<le> 0 then 750 * 1000000 else t)"

subsection \<open>One host\<close>

text \<open>\<open>dialFunc\<close> and \<open>tcpCheckFunc\<close>; a login that fails, or yields no client, is \<open>None\<close>.\<close>

record 'w ssh_env =
  se_dial :: "string \<Rightarrow> string \<Rightarrow> string \<Rightarrow> int \<Rightarrow> 'w \<Rightarrow> 'w runner option \<times> 'w"
  se_tcp :: "string \<Rightarrow> int \<Rightarrow> 'w \<Rightarrow> bool \<times> 'w"

definition ssh_device :: "ip \<Rightarrow> string \<Rightarrow> sys_info \<Rightarrow> bool \<Rightarrow> hwaddr \<Rightarrow> device" where
  "ssh_device ip user info netDev mac =
     (let info = info\<lparr>User := user\<rparr>;
          d = zero_device\<lparr>IP := to4 ip, Status := StatusUp, Hostname := SysHostname info, SysInfo := info\<rparr>;
          d = (if length mac > 0 then d\<lparr>MAC := mac, Vendor := Lookup mac\<rparr> else d);
          d = (let v = InferVendor info in if v \<noteq> '''' \<and> VendorUnset (Vendor d) then d\<lparr>Vendor := v\<rparr> else d)
      in if netDev then d\<lparr>Type := TypeNetwork\<rparr> else d)"

text \<open>The two loops over users and passwords, as one over the pairs in their order.  The outer \<open>None\<close> is
  a panic of \<open>collect\<close>.\<close>

definition credentials :: "ssh_config \<Rightarrow> (string \<times> string) list" where
  "credentials m = concat (map (\<lambda>user. map (\<lambda>pass. (user, pass)) (Passwords m)) (Users m))"

fun try_logins ::
  "('w \<Rightarrow> bool) \<Rightarrow> 'w ssh_env \<Rightarrow> string \<Rightarrow> int \<Rightarrow> ip \<Rightarrow> (string \<times> string) list \<Rightarrow> 'w \<Rightarrow>
   device option option \<times> 'w" where
  "try_logins ctx_err env addr timeout ip [] w = (Some None, w)"
| "try_logins ctx_err env addr timeout ip ((user, pass) # creds) w =
     (if ctx_err w then (Some None, w)
      else case se_dial env addr user pass timeout w of
        (None, w1) \<Rightarrow> try_logins ctx_err env addr timeout ip creds w1
      | (Some client, w1) \<Rightarrow>
          (case collect ctx_err client w1 of
             (None, w2) \<Rightarrow> (None, w2)
           | (Some (info, netDev, mac), w2) \<Rightarrow>
               (Some (Some (ssh_device ip user info netDev mac)), rn_close client w2)))"

definition probeOne ::
  "('w \<Rightarrow> bool) \<Rightarrow> 'w ssh_env \<Rightarrow> ssh_config \<Rightarrow> ip \<Rightarrow> int \<Rightarrow> 'w \<Rightarrow> device option option \<times> 'w" where
  "probeOne ctx_err env m ip tcpTimeout w =
     (if ctx_err w then (Some None, w)
      else
        let addr = join_host_port (ip_string ip) (fmt_int (ssh_port m));
            (open_port, w1) = se_tcp env addr tcpTimeout w
        in if \<not> open_port then (Some None, w1)
           else try_logins ctx_err env addr (dialTimeout m) ip (credentials m) w1)"

subsection \<open>The pool of workers\<close>

datatype ssh_worker = SIdle | SProbe ip | SGot ip "device option" | SCount | SExit

record ssh_pool =
  sp_feed :: "ip list"
  sp_closed :: bool
  sp_queue :: "ip list"
  sp_workers :: "ssh_worker list"
  sp_out :: "device list"
  sp_log :: "(ip \<times> device option) list"
  sp_done :: nat
  sp_cancelled :: bool

text \<open>\<open>sp_log\<close> is what the workers have probed, in the order in which they have handed it in; it is not
  part of the program.\<close>

definition ssh_start :: "ip list \<Rightarrow> nat \<Rightarrow> ssh_pool" where
  "ssh_start targets n =
     \<lparr>sp_feed = targets, sp_closed = False, sp_queue = [], sp_workers = replicate n SIdle, sp_out = [],
      sp_log = [], sp_done = 0, sp_cancelled = False\<rparr>"

definition put_ssh :: "nat \<Rightarrow> ssh_worker \<Rightarrow> ssh_pool \<Rightarrow> ssh_pool" where
  "put_ssh i x s = s\<lparr>sp_workers := (sp_workers s)[i := x]\<rparr>"

definition at_ssh :: "ssh_pool \<Rightarrow> nat \<Rightarrow> ssh_worker \<Rightarrow> bool" where
  "at_ssh s i x \<longleftrightarrow> i < length (sp_workers s) \<and> sp_workers s ! i = x"

text \<open>The steps of the feeder and of the workers; \<open>probe ip res\<close> says that the probe of a host may have
  this result, \<open>cap\<close> is the capacity of the job channel.\<close>

inductive ssh_work :: "(ip \<Rightarrow> device option \<Rightarrow> bool) \<Rightarrow> nat \<Rightarrow> ssh_pool \<Rightarrow> ssh_pool \<Rightarrow> bool" for probe cap where
  sfeed_skip: "\<not> sp_closed s \<Longrightarrow> sp_feed s = ip # ips \<Longrightarrow> to4 ip = [] \<Longrightarrow>
    ssh_work probe cap s (s\<lparr>sp_feed := ips, sp_done := Suc (sp_done s)\<rparr>)"
| sfeed_send: "\<not> sp_closed s \<Longrightarrow> sp_feed s = ip # ips \<Longrightarrow> to4 ip \<noteq> [] \<Longrightarrow> length (sp_queue s) < cap \<Longrightarrow>
    ssh_work probe cap s (s\<lparr>sp_feed := ips, sp_queue := sp_queue s @ [to4 ip]\<rparr>)"
| sfeed_stop: "\<not> sp_closed s \<Longrightarrow> sp_feed s = ip # ips \<Longrightarrow> to4 ip \<noteq> [] \<Longrightarrow> sp_cancelled s \<Longrightarrow>
    ssh_work probe cap s (s\<lparr>sp_closed := True\<rparr>)"
| sfeed_close: "\<not> sp_closed s \<Longrightarrow> sp_feed s = [] \<Longrightarrow> ssh_work probe cap s (s\<lparr>sp_closed := True\<rparr>)"
| stake: "at_ssh s i SIdle \<Longrightarrow> sp_queue s = ip # ips \<Longrightarrow>
    ssh_work probe cap s (put_ssh i (SProbe ip) (s\<lparr>sp_queue := ips\<rparr>))"
| sleave: "at_ssh s i SIdle \<Longrightarrow> sp_queue s = [] \<Longrightarrow> sp_closed s \<Longrightarrow> ssh_work probe cap s (put_ssh i SExit s)"
| sprobe: "at_ssh s i (SProbe ip) \<Longrightarrow> probe ip res \<Longrightarrow> ssh_work probe cap s (put_ssh i (SGot ip res) s)"
| sappend: "at_ssh s i (SGot ip res) \<Longrightarrow>
    ssh_work probe cap s (put_ssh i SCount
      (s\<lparr>sp_out := sp_out s @ (case res of Some d \<Rightarrow> [d] | None \<Rightarrow> []), sp_log := sp_log s @ [(ip, res)]\<rparr>))"
| scount: "at_ssh s i SCount \<Longrightarrow> ssh_work probe cap s (put_ssh i SIdle (s\<lparr>sp_done := Suc (sp_done s)\<rparr>))"

inductive ssh_step :: "(ip \<Rightarrow> device option \<Rightarrow> bool) \<Rightarrow> nat \<Rightarrow> ssh_pool \<Rightarrow> ssh_pool \<Rightarrow> bool" for probe cap where
  swork: "ssh_work probe cap s t \<Longrightarrow> ssh_step probe cap s t"
| scancel: "ssh_step probe cap s (s\<lparr>sp_cancelled := True\<rparr>)"

definition ssh_finished :: "ssh_pool \<Rightarrow> bool" where
  "ssh_finished s \<longleftrightarrow> sp_closed s \<and> (\<forall>x \<in> set (sp_workers s). x = SExit)"

text \<open>\<open>run\<close> picks the state in which all workers are gone.\<close>

definition ssh_Run ::
  "(nat \<Rightarrow> ssh_pool \<Rightarrow> 'w \<Rightarrow> ssh_pool \<times> 'w) \<Rightarrow> ssh_config \<Rightarrow> 'w request \<Rightarrow> 'w \<Rightarrow> (device list \<times> string option) \<times> 'w" where
  "ssh_Run run m req w =
     (if length (Users m) = 0 \<or> length (Passwords m) = 0 \<or> length (req_Targets req) = 0 then (([], None), w)
      else
        let workers = sshWorkers (req_Workers req) (int (length (req_Targets req)));
            (s, w1) = run (nat workers) (ssh_start (req_Targets req) (nat workers)) w
        in ((sp_out s, None), w1))"

definition ssh_method :: "(nat \<Rightarrow> ssh_pool \<Rightarrow> 'w \<Rightarrow> ssh_pool \<times> 'w) \<Rightarrow> ssh_config \<Rightarrow> 'w pmethod" where
  "ssh_method run m = \<lparr>m_Name = ''ssh'', m_SoftFail = True, m_Run = ssh_Run run m\<rparr>"

subsection \<open>The invariant of the pool\<close>

inductive_cases ssh_workE: "ssh_work probe cap s t"
inductive_cases ssh_stepE: "ssh_step probe cap s t"

lemma put_ssh_fields [simp]:
  "sp_feed (put_ssh i x s) = sp_feed s" "sp_closed (put_ssh i x s) = sp_closed s" "sp_queue (put_ssh i x s) = sp_queue s"
  "sp_workers (put_ssh i x s) = (sp_workers s)[i := x]" "sp_out (put_ssh i x s) = sp_out s"
  "sp_log (put_ssh i x s) = sp_log s" "sp_done (put_ssh i x s) = sp_done s" "sp_cancelled (put_ssh i x s) = sp_cancelled s"
  by (simp_all add: put_ssh_def)

fun in_hand :: "ssh_worker \<Rightarrow> ip list" where
  "in_hand (SProbe ip) = [ip]"
| "in_hand (SGot ip res) = [ip]"
| "in_hand w = []"

fun step_weight :: "ssh_worker \<Rightarrow> nat" where
  "step_weight SIdle = 1"
| "step_weight (SProbe ip) = 5"
| "step_weight (SGot ip res) = 4"
| "step_weight SCount = 3"
| "step_weight SExit = 0"

fun uncounted :: "ssh_worker \<Rightarrow> nat" where
  "uncounted SIdle = 0"
| "uncounted SExit = 0"
| "uncounted w = 1"

definition hands :: "ssh_worker list \<Rightarrow> ip multiset" where
  "hands ws = mset (concat (map in_hand ws))"

definition weigh :: "(ssh_worker \<Rightarrow> nat) \<Rightarrow> ssh_worker list \<Rightarrow> nat" where
  "weigh f ws = sum_list (map f ws)"

lemma hands_update: "i < length ws \<Longrightarrow> hands (ws[i := x]) + mset (in_hand (ws ! i)) = hands ws + mset (in_hand x)"
  by (induction ws arbitrary: i) (auto simp: hands_def split: nat.splits)

lemma weigh_update: "i < length ws \<Longrightarrow> weigh f (ws[i := x]) + f (ws ! i) = weigh f ws + f x"
  by (induction ws arbitrary: i) (auto simp: weigh_def split: nat.splits)

lemma hands_put: "at_ssh s i w \<Longrightarrow> hands ((sp_workers s)[i := x]) + mset (in_hand w) = hands (sp_workers s) + mset (in_hand x)"
  using hands_update by (auto simp: at_ssh_def)

lemma weigh_put: "at_ssh s i w \<Longrightarrow> weigh f ((sp_workers s)[i := x]) + f w = weigh f (sp_workers s) + f x"
  using weigh_update by (auto simp: at_ssh_def)

lemma at_ssh_mem: "at_ssh s i w \<Longrightarrow> w \<in> set (sp_workers s)"
  by (auto simp: at_ssh_def)

lemma update_mem: "w \<in> set (ws[i := x]) \<Longrightarrow> w = x \<or> w \<in> set ws"
  using set_update_subset_insert[of ws i x] by blast

definition targets4 :: "ip list \<Rightarrow> ip list" where
  "targets4 ips = filter (\<lambda>ip. ip \<noteq> []) (map to4 ips)"

text \<open>Every job is fed, queued, in the hands of a worker, or handed in.\<close>

definition ssh_jobs :: "ssh_pool \<Rightarrow> ip multiset" where
  "ssh_jobs s = mset (targets4 (sp_feed s)) + mset (sp_queue s) + hands (sp_workers s) + mset (map fst (sp_log s))"

definition ssh_ok :: "(ip \<Rightarrow> device option \<Rightarrow> bool) \<Rightarrow> ip list \<Rightarrow> nat \<Rightarrow> ssh_pool \<Rightarrow> bool" where
  "ssh_ok probe targets n s \<longleftrightarrow>
     length (sp_workers s) = n \<and>
     ssh_jobs s = mset (targets4 targets) \<and>
     sp_out s = List.map_filter snd (sp_log s) \<and>
     (\<forall>(ip, res) \<in> set (sp_log s). probe ip res) \<and>
     (\<forall>ip res. SGot ip res \<in> set (sp_workers s) \<longrightarrow> probe ip res) \<and>
     (SExit \<in> set (sp_workers s) \<longrightarrow> sp_closed s \<and> sp_queue s = []) \<and>
     (sp_closed s \<longrightarrow> sp_feed s = [] \<or> sp_cancelled s) \<and>
     sp_done s + length (sp_feed s) + length (sp_queue s) + weigh uncounted (sp_workers s) = length targets"

definition ssh_weight :: "ssh_pool \<Rightarrow> nat" where
  "ssh_weight s =
     6 * length (sp_feed s) + (if sp_closed s then 0 else 1) + 5 * length (sp_queue s) + weigh step_weight (sp_workers s)"

lemma ssh_start_ok: "ssh_ok probe targets n (ssh_start targets n)"
  by (auto simp: ssh_ok_def ssh_start_def ssh_jobs_def hands_def weigh_def map_filter_simps sum_list_replicate)

lemma targets4_Cons: "targets4 (ip # ips) = (if to4 ip = [] then targets4 ips else to4 ip # targets4 ips)"
  by (simp add: targets4_def)

lemma ssh_work_ok:
  assumes "ssh_ok probe targets n s" "ssh_work probe cap s t"
  shows "ssh_ok probe targets n t"
  using assms(2)
proof cases
  case (stake i ip ips)
  then show ?thesis
    using assms(1) hands_put[OF stake(2), of "SProbe ip"] weigh_put[OF stake(2), of uncounted "SProbe ip"]
    by (auto simp: ssh_ok_def ssh_jobs_def ac_simps dest!: update_mem)
next
  case (sleave i)
  then show ?thesis
    using assms(1) hands_put[OF sleave(2), of SExit] weigh_put[OF sleave(2), of uncounted SExit]
    by (auto simp: ssh_ok_def ssh_jobs_def dest!: update_mem)
next
  case (sprobe i ip res)
  then show ?thesis
    using assms(1) hands_put[OF sprobe(2), of "SGot ip res"] weigh_put[OF sprobe(2), of uncounted "SGot ip res"]
    by (auto simp: ssh_ok_def ssh_jobs_def dest!: update_mem)
next
  case (sappend i ip res)
  have "probe ip res"
    using assms(1) at_ssh_mem[OF sappend(2)] by (simp add: ssh_ok_def)
  moreover have "List.map_filter snd (sp_log s @ [(ip, res)]) =
      List.map_filter snd (sp_log s) @ (case res of Some d \<Rightarrow> [d] | None \<Rightarrow> [])"
    by (simp add: map_filter_def split: option.split)
  moreover have "ssh_jobs t = ssh_jobs s"
    using hands_put[OF sappend(2), of SCount] by (simp add: sappend(1) ssh_jobs_def)
  ultimately show ?thesis
    using sappend(1) assms(1) weigh_put[OF sappend(2), of uncounted SCount]
    by (auto simp: ssh_ok_def dest!: update_mem)
next
  case (scount i)
  then show ?thesis
    using assms(1) hands_put[OF scount(2), of SIdle] weigh_put[OF scount(2), of uncounted SIdle]
    by (auto simp: ssh_ok_def ssh_jobs_def dest!: update_mem)
qed (use assms(1) in \<open>auto simp: ssh_ok_def ssh_jobs_def targets4_Cons\<close>)

lemma ssh_work_less: "ssh_work probe cap s t \<Longrightarrow> ssh_weight t < ssh_weight s"
proof (induction rule: ssh_work.cases)
  case (stake s i ip ips)
  then show ?case
    using weigh_put[OF stake(3), of step_weight "SProbe ip"] by (simp add: ssh_weight_def)
next
  case (sleave s i)
  then show ?case
    using weigh_put[OF sleave(3), of step_weight SExit] by (simp add: ssh_weight_def)
next
  case (sprobe s i ip res)
  then show ?case
    using weigh_put[OF sprobe(3), of step_weight "SGot ip res"] by (simp add: ssh_weight_def)
next
  case (sappend s i ip res)
  then show ?case
    using weigh_put[OF sappend(3), of step_weight SCount] by (simp add: ssh_weight_def)
next
  case (scount s i)
  then show ?case
    using weigh_put[OF scount(3), of step_weight SIdle] by (simp add: ssh_weight_def)
qed (simp_all add: ssh_weight_def)

lemma ssh_progress:
  assumes "ssh_ok probe targets n s" "0 < n" "0 < cap" "\<forall>ip. \<exists>res. probe ip res" "\<not> ssh_finished s"
  shows "\<exists>t. ssh_work probe cap s t"
proof (cases "\<exists>w \<in> set (sp_workers s). w \<noteq> SIdle \<and> w \<noteq> SExit")
  case True
  then obtain i where i: "i < length (sp_workers s)" "sp_workers s ! i \<noteq> SIdle" "sp_workers s ! i \<noteq> SExit"
    by (metis in_set_conv_nth)
  then have at: "at_ssh s i (sp_workers s ! i)"
    by (simp add: at_ssh_def)
  show ?thesis
  proof (cases "sp_workers s ! i")
    case (SProbe ip)
    then show ?thesis
      using at assms(4) ssh_work.sprobe by metis
  next
    case (SGot ip res)
    then show ?thesis
      using at ssh_work.sappend by metis
  next
    case SCount
    then show ?thesis
      using at ssh_work.scount by metis
  qed (use i in simp_all)
next
  case calm: False
  show ?thesis
  proof (cases "SIdle \<in> set (sp_workers s)")
    case True
    then obtain i where i: "at_ssh s i SIdle"
      by (auto simp: at_ssh_def in_set_conv_nth)
    consider (take) ip ips where "sp_queue s = ip # ips" | (leave) "sp_queue s = []" "sp_closed s"
      | (feed) "sp_queue s = []" "\<not> sp_closed s"
      by (cases "sp_queue s") auto
    then show ?thesis
    proof cases
      case feed
      then show ?thesis
      proof (cases "sp_feed s")
        case (Cons ip ips)
        then show ?thesis
          using feed assms(3) sfeed_skip[of s ip ips] sfeed_send[of s ip ips cap]
          by (cases "to4 ip = []") auto
      qed (auto intro: sfeed_close)
    qed (use i in \<open>auto intro: stake sleave\<close>)
  next
    case False
    then have all: "\<forall>w \<in> set (sp_workers s). w = SExit"
      using calm by auto
    moreover have "sp_workers s \<noteq> []"
      using assms(1,2) by (auto simp: ssh_ok_def)
    then have "SExit \<in> set (sp_workers s)"
      using all by (cases "sp_workers s") auto
    ultimately show ?thesis
      using assms(1,5) by (auto simp: ssh_ok_def ssh_finished_def)
  qed
qed

lemma ssh_step_weight: "ssh_step probe cap s t \<Longrightarrow> ssh_weight t \<le> ssh_weight s"
  by (auto elim!: ssh_stepE dest: ssh_work_less simp: ssh_weight_def)

text \<open>The code has at least one worker and room for one job per worker; that every probe has a result is
  shown below.\<close>

interpretation ssh: fair_system "\<lambda>s. s = ssh_start targets n" "ssh_step probe cap" "ssh_ok probe targets n"
  "ssh_work probe cap" ssh_weight
  "\<lambda>s. ssh_finished s \<or> n = 0 \<or> cap = 0 \<or> \<not> (\<forall>ip. \<exists>res. probe ip res)"
  for targets n probe cap
proof unfold_locales
  show "ssh_ok probe targets n t" if "ssh_ok probe targets n s" "ssh_step probe cap s t" for s t
    using that(2)
  proof cases
    case swork
    then show ?thesis
      using ssh_work_ok that(1) by blast
  next
    case scancel
    then show ?thesis
      using that(1) by (auto simp: ssh_ok_def ssh_jobs_def)
  qed
qed (auto simp: ssh_start_ok ssh_step.swork ssh_work_less ssh_step_weight ssh_progress)

lemma sshWorkers_range: "1 \<le> sshWorkers r n \<and> sshWorkers r n \<le> maxSSHWorkers \<and> (0 < n \<longrightarrow> sshWorkers r n \<le> n)"
  by (auto simp: sshWorkers_def maxSSHWorkers_def Let_def)

subsection \<open>The logins\<close>

text \<open>The world after logins that have all been refused while the scan was going on.\<close>

fun all_refused ::
  "('w \<Rightarrow> bool) \<Rightarrow> 'w ssh_env \<Rightarrow> string \<Rightarrow> int \<Rightarrow> (string \<times> string) list \<Rightarrow> 'w \<Rightarrow> 'w option" where
  "all_refused ctx_err env addr t [] w = Some w"
| "all_refused ctx_err env addr t ((user, pass) # creds) w =
     (if ctx_err w then None
      else case se_dial env addr user pass t w of
        (None, w1) \<Rightarrow> all_refused ctx_err env addr t creds w1
      | (Some client, w1) \<Rightarrow> None)"

text \<open>A login is the first that succeeds: its session is read and then closed.\<close>

definition logged_in ::
  "('w \<Rightarrow> bool) \<Rightarrow> 'w ssh_env \<Rightarrow> string \<Rightarrow> int \<Rightarrow> ip \<Rightarrow> (string \<times> string) list \<Rightarrow> 'w \<Rightarrow> device \<Rightarrow> 'w \<Rightarrow> bool" where
  "logged_in ctx_err env addr t ip creds w d w' \<longleftrightarrow>
     (\<exists>pre user pass post client info netDev mac w1 w2 w3.
        creds = pre @ (user, pass) # post \<and> all_refused ctx_err env addr t pre w = Some w1 \<and> \<not> ctx_err w1 \<and>
        se_dial env addr user pass t w1 = (Some client, w2) \<and>
        collect ctx_err client w2 = (Some (info, netDev, mac), w3) \<and>
        d = ssh_device ip user info netDev mac \<and> w' = rn_close client w3)"

lemma logged_in_here:
  "\<not> ctx_err w \<Longrightarrow> se_dial env addr user pass t w = (Some client, w2) \<Longrightarrow>
   collect ctx_err client w2 = (Some (info, netDev, mac), w3) \<Longrightarrow>
   logged_in ctx_err env addr t ip ((user, pass) # creds) w (ssh_device ip user info netDev mac) (rn_close client w3)"
  unfolding logged_in_def by (rule exI[of _ "[]"], rule exI[of _ user], rule exI[of _ pass]) auto

lemma logged_in_later:
  assumes "logged_in ctx_err env addr t ip creds w1 d w'" "\<not> ctx_err w" "se_dial env addr user pass t w = (None, w1)"
  shows "logged_in ctx_err env addr t ip ((user, pass) # creds) w d w'"
proof -
  obtain pre u p post client info netDev mac w2 w3 w4 where l:
    "creds = pre @ (u, p) # post" "all_refused ctx_err env addr t pre w1 = Some w2" "\<not> ctx_err w2"
    "se_dial env addr u p t w2 = (Some client, w3)" "collect ctx_err client w3 = (Some (info, netDev, mac), w4)"
    "d = ssh_device ip u info netDev mac" "w' = rn_close client w4"
    using assms(1) unfolding logged_in_def by blast
  moreover have "all_refused ctx_err env addr t ((user, pass) # pre) w = Some w2"
    using assms(2,3) l(2) by simp
  moreover have "(user, pass) # creds = ((user, pass) # pre) @ (u, p) # post"
    using l(1) by simp
  ultimately show ?thesis
    unfolding logged_in_def by blast
qed

lemma try_logins_result:
  "try_logins ctx_err env addr t ip creds w = (Some res, w') \<Longrightarrow>
   (case res of
      None \<Rightarrow> ctx_err w' \<or> all_refused ctx_err env addr t creds w = Some w'
    | Some d \<Rightarrow> logged_in ctx_err env addr t ip creds w d w')"
proof (induction ctx_err env addr t ip creds w rule: try_logins.induct)
  case (2 ctx_err env addr t ip user pass creds w)
  show ?case
  proof (cases "ctx_err w")
    case False
    obtain c w1 where dial: "se_dial env addr user pass t w = (c, w1)"
      by (metis surj_pair)
    show ?thesis
    proof (cases c)
      case None
      then show ?thesis
        using 2 False dial logged_in_later[where env = env and addr = addr and user = user and pass = pass]
        by (cases res) auto
    next
      case (Some client)
      then obtain info netDev mac w2 where
        "collect ctx_err client w1 = (Some (info, netDev, mac), w2)" "res = Some (ssh_device ip user info netDev mac)"
        "w' = rn_close client w2"
        using 2(2) False dial by (auto split: prod.splits option.splits)
      then show ?thesis
        using logged_in_here False dial Some by fastforce
    qed
  qed (use 2 in simp)
qed simp

lemma ssh_device_fields [simp]:
  "IP (ssh_device ip user info netDev mac) = to4 ip" "Status (ssh_device ip user info netDev mac) = StatusUp"
  "MAC (ssh_device ip user info netDev mac) = mac" "SysInfo (ssh_device ip user info netDev mac) = info\<lparr>User := user\<rparr>"
  "Type (ssh_device ip user info netDev mac) = (if netDev then TypeNetwork else [])"
  by (auto simp: ssh_device_def Let_def zero_device_def)

text \<open>Sessions in ASCII do not panic, so that every probe has a result.\<close>

definition env_ascii :: "'w ssh_env \<Rightarrow> bool" where
  "env_ascii env \<longleftrightarrow> (\<forall>addr user pass t w client. fst (se_dial env addr user pass t w) = Some client \<longrightarrow> runner_ascii client)"

definition may_probe :: "('w \<Rightarrow> bool) \<Rightarrow> 'w ssh_env \<Rightarrow> ssh_config \<Rightarrow> int \<Rightarrow> ip \<Rightarrow> device option \<Rightarrow> bool" where
  "may_probe ctx_err env m t ip res \<longleftrightarrow> (\<exists>w w'. probeOne ctx_err env m ip t w = (Some res, w'))"

lemma try_logins_total: "env_ascii env \<Longrightarrow> fst (try_logins ctx_err env addr t ip creds w) \<noteq> None"
proof (induction ctx_err env addr t ip creds w rule: try_logins.induct)
  case (2 ctx_err env addr t ip user pass creds w)
  obtain c w1 where dial: "se_dial env addr user pass t w = (c, w1)"
    by (metis surj_pair)
  show ?case
  proof (cases c)
    case None
    then show ?thesis
      using 2 dial by simp
  next
    case (Some client)
    then have "runner_ascii client"
      using 2(2) dial unfolding env_ascii_def by (metis fst_conv)
    then have "fst (collect ctx_err client w1) \<noteq> None"
      by (rule collect_no_panic)
    then show ?thesis
      using dial Some by (auto split: prod.splits option.splits)
  qed
qed simp

lemma probeOne_total: "env_ascii env \<Longrightarrow> fst (probeOne ctx_err env m ip t w) \<noteq> None"
  using try_logins_total[of env ctx_err] by (simp add: probeOne_def Let_def case_prod_beta)

lemma may_probe_total: "env_ascii env \<Longrightarrow> \<exists>res. may_probe ctx_err env m t ip res"
  using probeOne_total unfolding may_probe_def by (metis not_None_eq prod.collapse)

lemma logged_in_device:
  assumes "logged_in ctx_err env addr t ip creds w d w'"
  shows "IP d = to4 ip \<and> Status d = StatusUp \<and> (Type d = [] \<or> Type d = TypeNetwork) \<and>
    (\<exists>pass. (User (SysInfo d), pass) \<in> set creds) \<and> (MAC d = [] \<or> length (MAC d) = 6)"
proof -
  obtain pre user pass post client info netDev mac w2 w3 where
    l: "creds = pre @ (user, pass) # post" "collect ctx_err client w2 = (Some (info, netDev, mac), w3)"
    "d = ssh_device ip user info netDev mac"
    using assms unfolding logged_in_def by blast
  then have "mac = [] \<or> length mac = 6"
    using collect_mac[OF l(2)] parseMAC_ok by blast
  then show ?thesis
    using l(1) unfolding l(3) by auto
qed

lemma may_probe_device:
  assumes "may_probe ctx_err env m t ip (Some d)"
  shows "IP d = to4 ip \<and> Status d = StatusUp \<and> (Type d = [] \<or> Type d = TypeNetwork) \<and>
    User (SysInfo d) \<in> set (Users m) \<and> (MAC d = [] \<or> length (MAC d) = 6)"
proof -
  obtain w w' where "probeOne ctx_err env m ip t w = (Some (Some d), w')"
    using assms unfolding may_probe_def by blast
  then obtain addr w1 where "try_logins ctx_err env addr (dialTimeout m) ip (credentials m) w1 = (Some (Some d), w')"
    by (auto simp: probeOne_def Let_def split: if_splits prod.splits)
  from logged_in_device[OF try_logins_result[OF this, simplified]] show ?thesis
    by (auto simp: credentials_def)
qed

text \<open>What a finished pool says: its workers are gone, so nothing is queued or in hand.\<close>

lemma gone_nothing: "\<forall>x \<in> set ws. x = SExit \<Longrightarrow> hands ws = {#} \<and> weigh uncounted ws = 0"
  by (induction ws) (auto simp: hands_def weigh_def)

lemma ssh_finished_jobs:
  assumes "ssh_ok probe targets n s" "ssh_finished s" "0 < n"
  shows "mset (map fst (sp_log s)) \<subseteq># mset (targets4 targets)"
    and "\<not> sp_cancelled s \<Longrightarrow> mset (map fst (sp_log s)) = mset (targets4 targets) \<and> sp_done s = length targets"
proof -
  have "SExit \<in> set (sp_workers s)"
    using assms by (cases "sp_workers s") (auto simp: ssh_ok_def ssh_finished_def)
  then have "sp_queue s = []"
    using assms(1) by (simp add: ssh_ok_def)
  moreover have "hands (sp_workers s) = {#}" "weigh uncounted (sp_workers s) = 0"
    using gone_nothing assms(2) by (auto simp: ssh_finished_def)
  ultimately have jobs: "mset (targets4 targets) = mset (targets4 (sp_feed s)) + mset (map fst (sp_log s))"
    "sp_done s + length (sp_feed s) = length targets"
    using assms(1) unfolding ssh_ok_def ssh_jobs_def by auto
  show "mset (map fst (sp_log s)) \<subseteq># mset (targets4 targets)"
    unfolding jobs(1) by (rule mset_subset_eq_add_right)
  show "mset (map fst (sp_log s)) = mset (targets4 targets) \<and> sp_done s = length targets" if "\<not> sp_cancelled s"
  proof -
    have "sp_feed s = []"
      using assms(1,2) that by (simp add: ssh_ok_def ssh_finished_def)
    then show ?thesis
      using jobs by (simp add: targets4_def)
  qed
qed

lemma log_addresses:
  assumes "\<forall>(ip, res) \<in> set log. may_probe ctx_err env m t ip res" "\<forall>ip \<in> set (map fst log). to4 ip = ip"
  shows "mset (map IP (List.map_filter snd log)) \<subseteq># mset (map fst log)"
  using assms
proof (induction log)
  case (Cons e log)
  then have IH: "mset (map IP (List.map_filter snd log)) \<subseteq># mset (map fst log)"
    by simp
  obtain ip res where e: "e = (ip, res)"
    by (metis surj_pair)
  show ?case
  proof (cases res)
    case None
    then show ?thesis
      using IH e subset_mset.order_trans[OF IH, of "add_mset ip (mset (map fst log))"] by (simp add: map_filter_simps)
  next
    case (Some d)
    then have "IP d = ip"
      using Cons.prems e may_probe_device[of ctx_err env m t ip d] by simp
    then show ?thesis
      using IH e Some by (simp add: map_filter_simps)
  qed
qed (simp add: map_filter_simps)

text \<open>The goroutines run by the step relation until the workers are gone.\<close>

definition ssh_ran ::
  "(nat \<Rightarrow> ssh_pool \<Rightarrow> 'w \<Rightarrow> ssh_pool \<times> 'w) \<Rightarrow> ('w \<Rightarrow> bool) \<Rightarrow> 'w ssh_env \<Rightarrow> ssh_config \<Rightarrow> 'w request \<Rightarrow> bool" where
  "ssh_ran run ctx_err env m req \<longleftrightarrow>
     (\<forall>w. let n = nat (sshWorkers (req_Workers req) (int (length (req_Targets req))));
              s = fst (run n (ssh_start (req_Targets req) n) w)
          in (ssh_step (may_probe ctx_err env m (tcp_timeout (req_Timeout req))) n)\<^sup>*\<^sup>* (ssh_start (req_Targets req) n) s \<and>
             ssh_finished s)"

lemma ssh_Run_devices:
  assumes "ssh_ran run ctx_err env m req" "ssh_Run run m req w = ((devs, err), w')"
  shows "err = None \<and> mset (map IP devs) \<subseteq># mset (targets4 (req_Targets req)) \<and>
    (\<forall>d \<in> set devs. is_ip4 (IP d) \<and> (\<exists>ip. may_probe ctx_err env m (tcp_timeout (req_Timeout req)) ip (Some d)))"
proof -
  let ?ts = "req_Targets req" and ?t = "tcp_timeout (req_Timeout req)"
  let ?n = "nat (sshWorkers (req_Workers req) (int (length ?ts)))"
  obtain s where s: "devs = [] \<or> devs = sp_out s" "err = None" "ssh_finished s"
    "(ssh_step (may_probe ctx_err env m ?t) ?n)\<^sup>*\<^sup>* (ssh_start ?ts ?n) s"
    using assms unfolding ssh_ran_def ssh_Run_def Let_def
    by (auto split: if_splits prod.splits) (metis fst_conv)+
  have ok: "ssh_ok (may_probe ctx_err env m ?t) ?ts ?n s"
    by (rule ssh.inv_reachable[OF refl s(4)])
  then have log: "sp_out s = List.map_filter snd (sp_log s)" "\<forall>(ip, res) \<in> set (sp_log s). may_probe ctx_err env m ?t ip res"
    by (simp_all add: ssh_ok_def)
  have "0 < ?n"
    using sshWorkers_range[of "req_Workers req" "int (length ?ts)"] by simp
  note jobs = ssh_finished_jobs(1)[OF ok s(3) this]
  have four: "to4 ip = ip \<and> is_ip4 ip" if "ip \<in> set (map fst (sp_log s))" for ip
  proof -
    have "ip \<in> set (targets4 ?ts)"
      using that jobs by (metis mset_subset_eqD set_mset_mset)
    then show ?thesis
      using to4_length by (auto simp: targets4_def is_ip4_def)
  qed
  have "mset (map IP (sp_out s)) \<subseteq># mset (targets4 ?ts)"
    using subset_mset.order_trans[OF log_addresses jobs] log four by simp
  moreover have "is_ip4 (IP d) \<and> (\<exists>ip. may_probe ctx_err env m ?t ip (Some d))" if d: "d \<in> set (sp_out s)" for d
  proof -
    obtain ip where ip: "(ip, Some d) \<in> set (sp_log s)"
      using d log(1) by (auto simp: map_filter_def)
    then have "may_probe ctx_err env m ?t ip (Some d)" "to4 ip = ip \<and> is_ip4 ip"
      using log(2) four by force+
    then show ?thesis
      using may_probe_device[of ctx_err env m ?t ip d] by auto
  qed
  ultimately show ?thesis
    using s(1,2) by auto
qed

subsection \<open>Properties\<close>

text \<open>C8.  The probe of a host.  It yields a device only from the first login that succeeds, in the order of
  users and then passwords, all earlier ones having been refused, and the session is closed; it
  yields none only if the scan was cancelled, the port is closed, or every login was refused.\<close>

theorem probeOne_result:
  assumes "probeOne ctx_err env m ip t w = (Some res, w')"
  shows "case res of
      None \<Rightarrow> ctx_err w' \<or> \<not> fst (se_tcp env (join_host_port (ip_string ip) (fmt_int (ssh_port m))) t w) \<or>
        all_refused ctx_err env (join_host_port (ip_string ip) (fmt_int (ssh_port m))) (dialTimeout m) (credentials m)
          (snd (se_tcp env (join_host_port (ip_string ip) (fmt_int (ssh_port m))) t w)) = Some w'
    | Some d \<Rightarrow>
        logged_in ctx_err env (join_host_port (ip_string ip) (fmt_int (ssh_port m))) (dialTimeout m) ip (credentials m)
          (snd (se_tcp env (join_host_port (ip_string ip) (fmt_int (ssh_port m))) t w)) d w'"
proof (cases "ctx_err w")
  case True
  then show ?thesis
    using assms by (simp add: probeOne_def)
next
  case False
  let ?addr = "join_host_port (ip_string ip) (fmt_int (ssh_port m))"
  obtain up w1 where tcp: "se_tcp env ?addr t w = (up, w1)"
    by (metis surj_pair)
  show ?thesis
  proof (cases up)
    case True
    then have "try_logins ctx_err env ?addr (dialTimeout m) ip (credentials m) w1 = (Some res, w')"
      using assms False tcp by (simp add: probeOne_def)
    from try_logins_result[OF this] show ?thesis
      using tcp by (cases res) auto
  qed (use assms False tcp in \<open>simp add: probeOne_def\<close>)
qed

text \<open>C15.  When the workers are gone, every probe handed in is that of a target, the devices are those the
  probes yielded, in the same order; unless the scan was cancelled every IPv4 target was probed exactly
  once per occurrence and the progress counter has reached the number of targets.\<close>

theorem ssh_sweep:
  assumes "(ssh_step probe cap)\<^sup>*\<^sup>* (ssh_start targets n) s" "ssh_finished s" "0 < n"
  shows "sp_out s = List.map_filter snd (sp_log s) \<and> (\<forall>(ip, res) \<in> set (sp_log s). probe ip res) \<and>
    mset (map fst (sp_log s)) \<subseteq># mset (targets4 targets) \<and>
    (\<not> sp_cancelled s \<longrightarrow> mset (map fst (sp_log s)) = mset (targets4 targets) \<and> sp_done s = length targets)"
proof -
  have ok: "ssh_ok probe targets n s"
    by (rule ssh.inv_reachable[OF refl assms(1)])
  then have "sp_out s = List.map_filter snd (sp_log s)" "\<forall>(ip, res) \<in> set (sp_log s). probe ip res"
    by (simp_all add: ssh_ok_def)
  then show ?thesis
    using ssh_finished_jobs[OF ok assms(2,3)] by blast
qed


text \<open>C6.  The devices of the SSH stage: up, with the address of an IPv4 target, at most one for each time it
  occurs among the targets, with one of the users given, a hardware address of six bytes or none, and
  the type of a network device or none; the stage itself never fails.\<close>

theorem ssh_hits:
  assumes "ssh_ran run ctx_err env m req" "ssh_Run run m req w = ((devs, err), w')"
  shows "err = None \<and> mset (map IP devs) \<subseteq># mset (targets4 (req_Targets req)) \<and>
    (\<forall>d \<in> set devs. is_ip4 (IP d) \<and> Status d = StatusUp \<and> User (SysInfo d) \<in> set (Users m) \<and>
       (MAC d = [] \<or> length (MAC d) = 6) \<and> (Type d = [] \<or> Type d = TypeNetwork))"
  using ssh_Run_devices[OF assms] may_probe_device by blast

subsection \<open>A run\<close>

text \<open>One host, whose first password is refused; the second one logs in to the session of \<open>demo_runner\<close>.\<close>

definition demo_method :: ssh_config where
  "demo_method = \<lparr>Users = [''root''], Passwords = [''bad'', ''good''], Port = 0, DialTimeout = 0\<rparr>"

definition demo_senv :: "nat ssh_env" where
  "demo_senv = \<lparr>se_dial = (\<lambda>addr user pass t w. (if pass = ''good'' then Some demo_runner else None, w)),
     se_tcp = (\<lambda>addr t w. (True, w))\<rparr>"

definition demo_host :: ip where "demo_host = [10, 0, 0, 7]"

definition demo_found :: device where
  "demo_found = ssh_device demo_host ''root'' demo_web False []"

lemma demo_host_to4 [simp]: "to4 demo_host = demo_host" "demo_host \<noteq> []"
  by (simp_all add: demo_host_def)

lemma demo_close: "rn_close demo_runner w = w"
  by (simp add: demo_runner_def)

lemma demo_probe: "probeOne (\<lambda>w. False) demo_senv demo_method demo_host t 0 = (Some (Some demo_found), 10)"
  by (simp add: probeOne_def demo_senv_def demo_method_def credentials_def demo_collect demo_close demo_found_def Let_def)

lemma demo_senv_ascii: "env_ascii demo_senv"
  using demo_runner_ascii by (simp add: env_ascii_def demo_senv_def)

definition demo_sent :: ssh_pool where
  "demo_sent = \<lparr>sp_feed = [], sp_closed = True, sp_queue = [], sp_workers = [SExit], sp_out = [demo_found],
     sp_log = [(demo_host, Some demo_found)], sp_done = 1, sp_cancelled = False\<rparr>"

abbreviation demo_may :: "ip \<Rightarrow> device option \<Rightarrow> bool" where
  "demo_may \<equiv> may_probe (\<lambda>w. False) demo_senv demo_method 750000000"

lemma demo_ssh_run: "(ssh_step demo_may 1)\<^sup>*\<^sup>* (ssh_start [demo_host] 1) demo_sent"
proof -
  let ?st = "\<lambda>closed q w out log d. \<lparr>sp_feed = [], sp_closed = closed, sp_queue = q, sp_workers = [w], sp_out = out,
     sp_log = log, sp_done = d, sp_cancelled = False\<rparr>"
  let ?s0 = "ssh_start [demo_host] 1" and ?r = "Some demo_found" and ?l = "[(demo_host, Some demo_found)]"
  note sw = put_ssh_def at_ssh_def ssh_start_def
  have may: "demo_may demo_host ?r"
    using demo_probe unfolding may_probe_def by blast
  have "ssh_work demo_may 1 ?s0 (?st False [demo_host] SIdle [] [] 0)"
    using sfeed_send[of ?s0 demo_host "[]" 1 demo_may] by (simp add: sw)
  moreover have "ssh_work demo_may 1 (?st False [demo_host] SIdle [] [] 0) (?st False [] (SProbe demo_host) [] [] 0)"
    using stake[of "?st False [demo_host] SIdle [] [] 0" 0 demo_host "[]" demo_may 1] by (simp add: sw)
  moreover have "ssh_work demo_may 1 (?st False [] (SProbe demo_host) [] [] 0) (?st False [] (SGot demo_host ?r) [] [] 0)"
    using sprobe[of "?st False [] (SProbe demo_host) [] [] 0" 0 demo_host demo_may ?r 1] may by (simp add: sw)
  moreover have "ssh_work demo_may 1 (?st False [] (SGot demo_host ?r) [] [] 0) (?st False [] SCount [demo_found] ?l 0)"
    using sappend[of "?st False [] (SGot demo_host ?r) [] [] 0" 0 demo_host ?r demo_may 1] by (simp add: sw)
  moreover have "ssh_work demo_may 1 (?st False [] SCount [demo_found] ?l 0) (?st False [] SIdle [demo_found] ?l 1)"
    using scount[of "?st False [] SCount [demo_found] ?l 0" 0 demo_may 1] by (simp add: sw)
  moreover have "ssh_work demo_may 1 (?st False [] SIdle [demo_found] ?l 1) (?st True [] SIdle [demo_found] ?l 1)"
    using sfeed_close[of "?st False [] SIdle [demo_found] ?l 1" demo_may 1] by simp
  moreover have "ssh_work demo_may 1 (?st True [] SIdle [demo_found] ?l 1) demo_sent"
    using sleave[of "?st True [] SIdle [demo_found] ?l 1" 0 demo_may 1] by (simp add: sw demo_sent_def)
  ultimately show ?thesis
    by (meson swork converse_rtranclp_into_rtranclp rtranclp.rtrancl_refl)
qed

lemma demo_sent_finished: "ssh_finished demo_sent"
  by (simp add: ssh_finished_def demo_sent_def)

definition demo_sreq :: "nat request" where
  "demo_sreq = \<lparr>req_Iface = ln_interface demo_net, req_SrcIP = ln_ip demo_net, req_Targets = [demo_host],
     req_Workers = 64, req_Timeout = 0, req_Progress = None, req_Warn = None\<rparr>"

lemma demo_ssh_ran: "ssh_ran (\<lambda>n s w. (demo_sent, w)) (\<lambda>w. False) demo_senv demo_method demo_sreq"
  using demo_ssh_run demo_sent_finished
  by (simp add: ssh_ran_def demo_sreq_def tcp_timeout_def sshWorkers_def maxSSHWorkers_def Let_def)

lemma demo_ssh_hits: "ssh_Run (\<lambda>n s w. (demo_sent, w)) demo_method demo_sreq 0 = (([demo_found], None), 0)"
  by (simp add: ssh_Run_def demo_method_def demo_sreq_def demo_sent_def)

theorem probeOne_result_witness:
  "logged_in (\<lambda>w. False) demo_senv (join_host_port (ip_string demo_host) (fmt_int (ssh_port demo_method)))
     (dialTimeout demo_method) demo_host (credentials demo_method) 0 demo_found 10"
  using probeOne_result[OF demo_probe[of 0]] by (simp add: demo_senv_def)

theorem ssh_sweep_witness: "sp_out demo_sent = [demo_found] \<and> mset (map fst (sp_log demo_sent)) = {#demo_host#}"
  using ssh_sweep[OF demo_ssh_run demo_sent_finished]
  by (simp add: demo_sent_def targets4_def map_filter_simps)


theorem ssh_hits_witness: "User (SysInfo demo_found) \<in> set (Users demo_method) \<and> is_ip4 (IP demo_found)"
  using ssh_hits[OF demo_ssh_ran demo_ssh_hits] by simp

end
