(* ===== verification/MainScan.thy ===== *)
theory MainScan
  imports Options Iface Arpscan IcmpPool Enrich Report Sshprobe
begin

text \<open>
  \<open>main.go\<close>: from the arguments to the exit code.  \<open>main_run\<close> puts the components together in the
  order of \<open>run\<close>; the machine the program runs on (files, environment, interfaces, clock, sockets and
  what is written) is a record of functions on the state of the world.  A line that is written is a
  \<open>message\<close> with the arguments of its format string.
\<close>

subsection \<open>Messages\<close>

datatype message =
    WarnDotEnv string
  | VersionLine
  | ErrMaxHosts
  | ErrDetect detect_error
  | ErrHosts string
  | HintMaxHosts
  | InterfaceLine string hwaddr
  | LocalIPLine ip
  | SubnetLine string nat
  | WorkersNoPing int int
  | WorkersPing int int int
  | WarnNoCredentials
  | SSHLine nat nat int
  | ScanningLine
  | ProgressLine string int int int
  | ProgressEnd
  | WarnStage string string
  | PrivilegeHelp string
  | ErrScan string
  | FoundLine nat int
  | Tables "block list"
  | NoteEarly

subsection \<open>The progress line\<close>

text \<open>The variables the callback captures; \<open>None\<close> is the zero time.\<close>

record progress_state =
  lastPct :: int
  lastStage :: string
  lastDraw :: "int option"

definition progress_start :: progress_state where
  "progress_start = \<lparr>lastPct = -1, lastStage = '''', lastDraw = None\<rparr>"

text \<open>One call, with its two readings of the clock.  The time since the zero time is the longest
  duration there is.\<close>

definition progress ::
  "int \<Rightarrow> int \<Rightarrow> string \<Rightarrow> int \<Rightarrow> int \<Rightarrow> progress_state \<Rightarrow> message list \<times> progress_state" where
  "progress since now stage fin goal p =
     (if goal = 0 then ([], p)
      else
        let (ms, p) =
              (if stage \<noteq> lastStage p then
                 (if lastStage p \<noteq> '''' \<and> lastPct p \<noteq> 100 then [ProgressEnd] else [],
                  p\<lparr>lastPct := -1, lastStage := stage, lastDraw := None\<rparr>)
               else ([], p));
            pct = fin * 100 div goal
        in if pct = lastPct p \<and> fin \<noteq> goal \<and>
              (case lastDraw p of None \<Rightarrow> False | Some t \<Rightarrow> since - t < 200 * 1000000)
           then (ms, p)
           else (ms @ [ProgressLine stage fin goal pct] @ (if fin = goal then [ProgressEnd] else []),
                 p\<lparr>lastPct := pct, lastDraw := Some now\<rparr>))"

subsection \<open>The scanning host\<close>

definition is_self :: "local_net \<Rightarrow> device \<Rightarrow> bool" where
  "is_self local d \<longleftrightarrow> ip_equal (IP d) (ln_ip local) \<or> ip_string (IP d) = ip_string (ln_ip local)"

definition fill_self :: "hwaddr \<Rightarrow> string \<Rightarrow> device \<Rightarrow> device" where
  "fill_self mac hostname d =
     (let d = (if length (MAC d) = 0 \<and> length mac > 0 then enrichSelf (d\<lparr>MAC := mac\<rparr>) else d)
      in if Hostname d = '''' \<and> hostname \<noteq> '''' then d\<lparr>Hostname := hostname\<rparr> else d)"

definition self_device :: "hwaddr \<Rightarrow> string \<Rightarrow> local_net \<Rightarrow> device" where
  "self_device mac hostname local =
     (let d = enrichSelf (zero_device\<lparr>IP := to4 (ln_ip local), MAC := mac, Status := StatusUp\<rparr>)
      in if hostname \<noteq> '''' then d\<lparr>Hostname := hostname\<rparr> else d)"

text \<open>\<open>host\<close> is the answer of \<open>os.Hostname\<close>, \<open>None\<close> for an error.\<close>

definition ensureSelf :: "string option \<Rightarrow> device list \<Rightarrow> local_net \<Rightarrow> device list" where
  "ensureSelf host devices local =
     (let mac = if_hwaddr (ln_interface local);
          hostname = (case host of Some h \<Rightarrow> h | None \<Rightarrow> '''')
      in case first_index (is_self local) devices of
           Some i \<Rightarrow> devices[i := fill_self mac hostname (devices ! i)]
         | None \<Rightarrow> devices @ [self_device mac hostname local])"

subsection \<open>The stages of a scan\<close>

datatype stage = ICMP | ARP | SSH

text \<open>Stages are ordered as they run.\<close>

instantiation stage :: linorder
begin

fun rank_stage :: "stage \<Rightarrow> nat" where
  "rank_stage ICMP = 0"
| "rank_stage ARP = 1"
| "rank_stage SSH = 2"

definition less_eq_stage :: "stage \<Rightarrow> stage \<Rightarrow> bool" where
  "less_eq_stage a b \<longleftrightarrow> rank_stage a \<le> rank_stage b"

definition less_stage :: "stage \<Rightarrow> stage \<Rightarrow> bool" where
  "less_stage a b \<longleftrightarrow> rank_stage a < rank_stage b"

instance
proof
  show "a = b" if "a \<le> b" "b \<le> a" for a b :: stage
    using that by (cases a; cases b) (simp_all add: less_eq_stage_def)
qed (auto simp: less_eq_stage_def less_stage_def)

end

definition chosen_stages :: "bool \<Rightarrow> bool \<Rightarrow> stage list" where
  "chosen_stages noPing enableSSH =
     (if noPing then [] else [ICMP]) @ [ARP] @ (if enableSSH then [SSH] else [])"

text \<open>
  The machine.  \<open>mc_sort\<close> is the permutation \<open>sort.Slice\<close> makes, the iteration orders are those of
  the maps of the stages, \<open>mc_ssh_run\<close> and \<open>mc_dns_run\<close> pick the state in which the goroutines of
  the SSH stage and of the lookups are gone.
\<close>

record 'w machine =
  mc_environ :: environ
  mc_file :: "string \<Rightarrow> env_file"
  mc_net :: os_net
  mc_hostname :: "string option"
  mc_now :: "'w \<Rightarrow> int \<times> 'w"
  mc_deadline :: "int \<Rightarrow> 'w \<Rightarrow> 'w"
  mc_ctx_err :: "'w \<Rightarrow> bool"
  mc_say :: "message \<Rightarrow> 'w \<Rightarrow> 'w"
  mc_progress :: "'w \<Rightarrow> progress_state"
  mc_set_progress :: "progress_state \<Rightarrow> 'w \<Rightarrow> 'w"
  mc_icmp :: "'w icmp_env"
  mc_pcap :: "'w pcap_env"
  mc_ssh :: "'w ssh_env"
  mc_ssh_run :: "ssh_config \<Rightarrow> nat \<Rightarrow> ssh_pool \<Rightarrow> 'w \<Rightarrow> ssh_pool \<times> 'w"
  mc_dns_run :: "lookups \<Rightarrow> 'w \<Rightarrow> lookups \<times> 'w"
  mc_sort :: "device list \<Rightarrow> device list"
  mc_env_iter :: "(string, string) gomap \<Rightarrow> (string, string) gomap"
  mc_icmp_iter :: "(string, unit) gomap \<Rightarrow> (string, unit) gomap"
  mc_arp_iter :: "(string, hwaddr) gomap \<Rightarrow> (string, hwaddr) gomap"
  mc_merge_iter :: "(string, device) gomap \<Rightarrow> (string, device) gomap"

definition progressFn :: "'w machine \<Rightarrow> string \<Rightarrow> int \<Rightarrow> int \<Rightarrow> 'w \<Rightarrow> 'w" where
  "progressFn mc stage fin goal w =
     (let (since, w) = mc_now mc w; (now, w) = mc_now mc w;
          (ms, p) = progress since now stage fin goal (mc_progress mc w)
      in fold (mc_say mc) ms (mc_set_progress mc p w))"

definition ping_count :: "options \<Rightarrow> int" where
  "ping_count opts = (if o_pingCount opts < 1 then DefaultAttempts else o_pingCount opts)"

text \<open>The credentials, and whether the SSH stage runs.\<close>

definition ssh_settings :: "environ \<Rightarrow> ssh_config" where
  "ssh_settings env =
     (let (users, passwords, port) = CredentialsFromEnv env
      in \<lparr>Users = users, Passwords = passwords, Port = port, DialTimeout = 0\<rparr>)"

definition ssh_wanted :: "options \<Rightarrow> ssh_config \<Rightarrow> bool" where
  "ssh_wanted opts cfg \<longleftrightarrow> o_enableSSH opts \<and> \<not> (length (Users cfg) = 0 \<or> length (Passwords cfg) = 0)"

definition stage_method :: "'w machine \<Rightarrow> options \<Rightarrow> ssh_config \<Rightarrow> stage \<Rightarrow> 'w pmethod" where
  "stage_method mc opts cfg st =
     (case st of
        ICMP \<Rightarrow> icmp_method (mc_icmp_iter mc) (mc_icmp mc) (ping_count opts) 0
      | ARP \<Rightarrow> arp_method (mc_arp_iter mc) (mc_pcap mc)
      | SSH \<Rightarrow> ssh_method (mc_ssh_run mc cfg) cfg)"

definition scan_methods :: "'w machine \<Rightarrow> options \<Rightarrow> ssh_config \<Rightarrow> 'w pmethod list" where
  "scan_methods mc opts cfg = map (stage_method mc opts cfg) (chosen_stages (o_noPing opts) (ssh_wanted opts cfg))"

definition scan_request :: "'w machine \<Rightarrow> options \<Rightarrow> local_net \<Rightarrow> ip list \<Rightarrow> 'w request" where
  "scan_request mc opts local hosts =
     \<lparr>req_Iface = ln_interface local, req_SrcIP = ln_ip local, req_Targets = hosts, req_Workers = o_workers opts,
      req_Timeout = o_timeout opts, req_Progress = (if o_quiet opts then None else Some (progressFn mc)),
      req_Warn = Some (\<lambda>m e. mc_say mc (WarnStage m e))\<rparr>"

definition privilege_error :: "string \<Rightarrow> bool" where
  "privilege_error err \<longleftrightarrow>
     IsPermissionError (Some err) \<or>
     (let errText = to_lower err in
      contains errText ''permission'' \<or> contains errText ''not permitted'' \<or> contains errText ''bpf'' \<or>
      contains errText ''operation not supported'')"

subsection \<open>The run\<close>

text \<open>What is written before the scan.\<close>

definition banner :: "options \<Rightarrow> ssh_config \<Rightarrow> local_net \<Rightarrow> ip list \<Rightarrow> message list" where
  "banner opts cfg local hosts =
     [InterfaceLine (if_name (ln_interface local)) (if_hwaddr (ln_interface local)), LocalIPLine (ln_ip local),
      SubnetLine (CIDR local) (length hosts),
      if o_noPing opts then WorkersNoPing (o_workers opts) (o_timeout opts)
      else WorkersPing (o_workers opts) (ping_count opts) (o_timeout opts)] @
     (if o_enableSSH opts then
        (if \<not> ssh_wanted opts cfg then [WarnNoCredentials]
         else [SSHLine (length (Users cfg)) (length (Passwords cfg)) (Port cfg)])
      else []) @ [ScanningLine]"

text \<open>The rows of the table, from those of the pipeline.\<close>

definition final_rows :: "'w machine \<Rightarrow> options \<Rightarrow> local_net \<Rightarrow> device list \<Rightarrow> 'w \<Rightarrow> device list \<times> 'w" where
  "final_rows mc opts local devices w =
     (let (devices, w) = (if \<not> o_noDNS opts \<and> length devices > 0 then Hostnames (mc_dns_run mc) devices w
                          else (devices, w))
      in (mc_sort mc (ensureSelf (mc_hostname mc) devices local), w))"

definition scan :: "'w machine \<Rightarrow> options \<Rightarrow> environ \<Rightarrow> local_net \<Rightarrow> ip list \<Rightarrow> 'w \<Rightarrow> int \<times> 'w" where
  "scan mc opts env local hosts w =
     (let cfg = ssh_settings env;
          w = fold (mc_say mc) (banner opts cfg local hosts) w;
          w = mc_deadline mc (o_scanTimeout opts) w;
          w = (if o_quiet opts then w else mc_set_progress mc progress_start w);
          (start, w) = mc_now mc w;
          ((devices, err), w) =
            pipeline_Run (mc_merge_iter mc) (mc_ctx_err mc) (Some (scan_methods mc opts cfg))
              (scan_request mc opts local hosts) w;
          (stop, w) = mc_now mc w
      in case err of
           Some e \<Rightarrow> (1, mc_say mc (if privilege_error e then PrivilegeHelp e else ErrScan e) w)
         | None \<Rightarrow>
             (let (rows, w) = final_rows mc opts local devices w;
                  w = mc_say mc (FoundLine (length rows) (stop - start)) w;
                  w = mc_say mc (Tables (printTable rows)) w
              in (0, if mc_ctx_err mc w then mc_say mc NoteEarly w else w)))"

text \<open>\<open>run\<close>: the exit code, \<open>None\<close> for a panic.\<close>

definition main_run :: "'w machine \<Rightarrow> string list \<Rightarrow> 'w \<Rightarrow> int option \<times> 'w" where
  "main_run mc args w =
     (let (warning, env) = LoadDefault (mc_env_iter mc) (mc_file mc) (mc_environ mc);
          w = (case warning of Some e \<Rightarrow> mc_say mc (WarnDotEnv e) w | None \<Rightarrow> w)
      in case parse_flags args default_options of
           None \<Rightarrow> (Some 2, w)
         | Some opts \<Rightarrow>
             if o_showVersion opts then (Some 0, mc_say mc VersionLine w)
             else if o_maxHosts opts < 0 then (Some 2, mc_say mc ErrMaxHosts w)
             else case Detect (mc_net mc) (o_iface opts) of
               Inl e \<Rightarrow> (Some 1, mc_say mc (ErrDetect e) w)
             | Inr local \<Rightarrow>
                 (case Hosts local (o_maxHosts opts) of
                    None \<Rightarrow> (None, w)
                  | Some (Inl e) \<Rightarrow>
                      (let w = mc_say mc (ErrHosts (hosts_error_text e)) w
                       in (Some 1, if o_maxHosts opts > 0 \<and> contains (hosts_error_text e) ''raise the host limit''
                                   then mc_say mc HintMaxHosts w else w))
                  | Some (Inr hosts) \<Rightarrow>
                      (let (code, w) = scan mc opts env local hosts w in (Some code, w))))"

subsection \<open>What the stages report\<close>

lemma arp_devices_up: "d \<in> set (arp_devices entries) \<Longrightarrow> is_ip4 (IP d) \<and> Status d = StatusUp"
  using to4_length by (auto simp: arp_devices_def map_filter_def is_ip4_def Let_def split: if_splits) fastforce

lemma icmp_devices_up: "d \<in> set (icmp_devices keys) \<Longrightarrow> is_ip4 (IP d) \<and> Status d = StatusUp"
  by (auto simp: icmp_devices_def map_filter_def is_ip4_def zero_device_def Let_def to4_not_Nil split: if_splits)

lemma Scan_up:
  "Scan iter env ifi srcIP targets opt w = ((devs, r), w') \<Longrightarrow> d \<in> set devs \<Longrightarrow> is_ip4 (IP d) \<and> Status d = StatusUp"
  by (auto simp: Scan_def Let_def arp_devices_up split: if_splits prod.splits option.splits)

lemma icmp_Run_up:
  "icmp_Run iter env a e req w = ((devs, r), w') \<Longrightarrow> d \<in> set devs \<Longrightarrow> is_ip4 (IP d) \<and> Status d = StatusUp"
  by (auto simp: icmp_Run_def Let_def icmp_devices_up split: if_splits prod.splits sum.splits)

lemma ssh_Run_up:
  "ssh_ran run ctx_err env m req \<Longrightarrow> ssh_Run run m req w = ((devs, r), w') \<Longrightarrow> d \<in> set devs \<Longrightarrow>
   is_ip4 (IP d) \<and> Status d = StatusUp"
  using ssh_Run_devices[of run ctx_err env m req w devs r w'] may_probe_device by blast

text \<open>If the goroutines of the SSH stage run at all, they run by the step relation.\<close>

definition ssh_fair :: "'w machine \<Rightarrow> options \<Rightarrow> ssh_config \<Rightarrow> 'w request \<Rightarrow> bool" where
  "ssh_fair mc opts cfg req \<longleftrightarrow>
     (ssh_wanted opts cfg \<longrightarrow> ssh_ran (mc_ssh_run mc cfg) (mc_ctx_err mc) (mc_ssh mc) cfg req)"

definition host_up :: "'w machine \<Rightarrow> options \<Rightarrow> ssh_config \<Rightarrow> 'w request \<Rightarrow> device \<Rightarrow> bool" where
  "host_up mc opts cfg req d \<longleftrightarrow> ssh_fair mc opts cfg req \<longrightarrow> is_ip4 (IP d) \<and> Status d = StatusUp"

interpretation hits: stages "host_up mc opts cfg" "scan_methods mc opts cfg" for mc opts cfg
proof unfold_locales
  fix m req w devs r w' d
  assume "m \<in> set (scan_methods mc opts cfg)" and run: "m_Run m req w = ((devs, r), w')" "d \<in> set devs"
  then obtain st where st: "m = stage_method mc opts cfg st" "st = SSH \<longrightarrow> ssh_wanted opts cfg"
    by (auto simp: scan_methods_def chosen_stages_def split: if_splits)
  show "host_up mc opts cfg req d"
  proof (cases st)
    case ICMP
    then show ?thesis
      using icmp_Run_up[of _ _ _ _ req w devs r w' d] run st(1) by (simp add: stage_method_def icmp_method_def host_up_def)
  next
    case ARP
    then show ?thesis
      using run(1) st(1) by (auto simp: stage_method_def arp_method_def host_up_def dest!: Scan_up[OF _ run(2)])
  next
    case SSH
    then show ?thesis
      using ssh_Run_up[of _ _ _ cfg req w devs r w' d] run st
      by (simp add: stage_method_def ssh_method_def host_up_def ssh_fair_def)
  qed
qed

subsection \<open>The progress line\<close>

fun progress_calls :: "string \<Rightarrow> int \<Rightarrow> (int \<times> int \<times> int) list \<Rightarrow> progress_state \<Rightarrow> message list \<times> progress_state" where
  "progress_calls stage goal [] p = ([], p)"
| "progress_calls stage goal ((since, now, fin) # calls) p =
     (let (ms, p1) = progress since now stage fin goal p; (ms', p2) = progress_calls stage goal calls p1
      in (ms @ ms', p2))"

fun percent :: "message \<Rightarrow> int list" where
  "percent (ProgressLine stage fin goal pct) = [pct]"
| "percent _ = []"

definition percents :: "message list \<Rightarrow> int list" where
  "percents ms = concat (map percent ms)"

lemma percents_simps [simp]:
  "percents [] = []" "percents (ms @ ms') = percents ms @ percents ms'" "percents (m # ms) = percent m @ percents ms"
  by (simp_all add: percents_def)

text \<open>A run of calls within one stage: the part done grows, the clock stays within 200 ms of \<open>t0\<close>.\<close>

definition steady :: "int \<Rightarrow> int \<Rightarrow> (int \<times> int \<times> int) list \<Rightarrow> bool" where
  "steady t0 goal calls \<longleftrightarrow>
     sorted_wrt (<) (map (\<lambda>(since, now, fin). fin) calls) \<and>
     (\<forall>(since, now, fin) \<in> set calls. 0 \<le> fin \<and> fin \<le> goal \<and> t0 \<le> now \<and> t0 \<le> since \<and>
        now < t0 + 200 * 1000000 \<and> since < t0 + 200 * 1000000)"

lemma percent_less: "0 < goal \<Longrightarrow> fin < goal \<Longrightarrow> fin * 100 div goal < (100 :: int)"
proof (rule ccontr)
  assume g: "0 < goal" "fin < goal" "\<not> fin * 100 div goal < 100"
  then have "100 * goal \<le> fin * 100 div goal * goal"
    by (intro mult_right_mono) simp_all
  also have "\<dots> \<le> fin * 100"
    using g(1) div_mult_mod_eq[of "fin * 100" goal] pos_mod_sign[OF g(1), of "fin * 100"] by linarith
  finally show False
    using g(2) by simp
qed

lemma progress_calls_draw:
  assumes "0 < goal" "steady t0 goal calls" "lastStage p = stage"
    and "calls \<noteq> [] \<longrightarrow> lastPct p < 100" "\<forall>(since, now, fin) \<in> set calls. lastPct p \<le> fin * 100 div goal"
    and "lastPct p = -1 \<or> (\<exists>t. lastDraw p = Some t \<and> t0 \<le> t)"
  shows "sorted_wrt (<) (percents (fst (progress_calls stage goal calls p))) \<and>
    (\<forall>x \<in> set (percents (fst (progress_calls stage goal calls p))). lastPct p < x \<and> x \<le> 100) \<and>
    (goal \<in> (\<lambda>(since, now, fin). fin) ` set calls \<longrightarrow> 100 \<in> set (percents (fst (progress_calls stage goal calls p))))"
  using assms(2-6)
proof (induction calls arbitrary: p)
  case (Cons c calls)
  obtain since now fin where c: "c = (since, now, fin)"
    by (cases c)
  let ?pct = "fin * 100 div goal"
  have fin: "0 \<le> fin" "fin \<le> goal" and clock: "t0 \<le> now" "since < t0 + 200 * 1000000"
    and tail: "steady t0 goal calls"
    using Cons.prems(1) by (auto simp: c steady_def)
  have later: "\<forall>(since, now, fin') \<in> set calls. fin < fin' \<and> fin' \<le> goal"
    using Cons.prems(1) by (fastforce simp: c steady_def)
  have low: "lastPct p \<le> ?pct" "lastPct p < 100"
    using Cons.prems(3,4) by (auto simp: c)
  have pct: "0 \<le> ?pct" "?pct \<le> 100"
    using fin assms(1) zdiv_mono1[of "fin * 100" "goal * 100" goal] by (simp_all add: pos_imp_zdiv_nonneg_iff)
  have full: "fin = goal \<Longrightarrow> ?pct = 100"
    using assms(1) by simp
  show ?case
  proof (cases "?pct = lastPct p")
    case True
    have "fin \<noteq> goal"
      using full low True by auto
    moreover obtain t where "lastDraw p = Some t" "t0 \<le> t"
      using Cons.prems(5) True pct(1) by auto
    ultimately have "progress since now stage fin goal p = ([], p)"
      using True clock assms(1) Cons.prems(2) by (simp add: progress_def)
    moreover have "\<forall>(since, now, fin) \<in> set calls. lastPct p \<le> fin * 100 div goal"
      using Cons.prems(4) by (simp add: c)
    ultimately show ?thesis
      using Cons.IH[OF tail Cons.prems(2) _ _ Cons.prems(5)] low \<open>fin \<noteq> goal\<close> by (simp add: c case_prod_beta)
  next
    case False
    let ?p = "p\<lparr>lastPct := ?pct, lastDraw := Some now\<rparr>"
    have draw: "progress since now stage fin goal p =
        ([ProgressLine stage fin goal ?pct] @ (if fin = goal then [ProgressEnd] else []), ?p)"
      using False assms(1) Cons.prems(2) by (simp add: progress_def Let_def)
    have "calls \<noteq> [] \<longrightarrow> ?pct < 100"
      using later percent_less[OF assms(1), of fin] by (cases calls) auto
    moreover have "\<forall>(since, now, fin') \<in> set calls. ?pct \<le> fin' * 100 div goal"
      using later assms(1) by (auto intro!: zdiv_mono1)
    ultimately have "sorted_wrt (<) (percents (fst (progress_calls stage goal calls ?p))) \<and>
      (\<forall>x \<in> set (percents (fst (progress_calls stage goal calls ?p))). ?pct < x \<and> x \<le> 100) \<and>
      (goal \<in> (\<lambda>(since, now, fin). fin) ` set calls \<longrightarrow> 100 \<in> set (percents (fst (progress_calls stage goal calls ?p))))"
      using Cons.IH[OF tail, of ?p] Cons.prems(2) clock(1) by simp
    then show ?thesis
      using draw low(1) False pct(2) full by (auto simp: c case_prod_beta)
  qed
qed simp

lemma progress_new_stage:
  "stage \<noteq> lastStage p \<Longrightarrow> goal \<noteq> 0 \<Longrightarrow>
   progress since now stage fin goal p =
     (let (ms, p') = progress since now stage fin goal \<lparr>lastPct = -1, lastStage = stage, lastDraw = None\<rparr>
      in ((if lastStage p \<noteq> '''' \<and> lastPct p \<noteq> 100 then [ProgressEnd] else []) @ ms, p'))"
  by (simp add: progress_def Let_def)

lemma progress_calls_new_stage:
  assumes "stage \<noteq> lastStage p" "goal \<noteq> 0"
  shows "percents (fst (progress_calls stage goal calls p)) =
    percents (fst (progress_calls stage goal calls \<lparr>lastPct = -1, lastStage = stage, lastDraw = None\<rparr>))"
  using progress_new_stage[OF assms] by (cases calls) (auto simp: case_prod_beta Let_def)

subsection \<open>The row of the scanning host\<close>

lemma first_index_None: "first_index P xs = None \<longleftrightarrow> (\<forall>x \<in> set xs. \<not> P x)"
  by (induction xs) auto

lemma is_self_iff: "is_ip4 (ln_ip local) \<Longrightarrow> is_ip4 (IP d) \<Longrightarrow> is_self local d \<longleftrightarrow> IP d = ln_ip local"
  using ipkey.key_inj by (auto simp: is_self_def ip_equal_4 is_ip4_def)

lemma enrichSelf_fields [simp]:
  "IP (enrichSelf d) = IP d" "MAC (enrichSelf d) = MAC d" "Hostname (enrichSelf d) = Hostname d"
  "Status (enrichSelf d) = (if Status d = [] then StatusUp else Status d)" "Vendor (enrichSelf d) = Lookup (MAC d)"
  "Type (enrichSelf d) = InferType (Lookup (MAC d))"
  by (simp_all add: enrichSelf_def Let_def)

lemma fill_self_IP [simp]: "IP (fill_self mac h d) = IP d"
  by (simp add: fill_self_def Let_def)

lemma self_device_IP [simp]: "IP (self_device mac h local) = to4 (ln_ip local)"
  by (simp add: self_device_def Let_def)

lemma Lookup_type_not_Nil: "InferType v \<noteq> []"
  by (simp add: InferType_def TypeNetwork_def TypeEnd_def TypeUnknown_def Let_def)

text \<open>What is known of the row of the scanning host in the end.\<close>

definition self_known :: "string option \<Rightarrow> local_net \<Rightarrow> device \<Rightarrow> bool" where
  "self_known host local d \<longleftrightarrow>
     IP d = ln_ip local \<and> (if_hwaddr (ln_interface local) \<noteq> [] \<longrightarrow> MAC d \<noteq> []) \<and>
     (host \<noteq> None \<and> host \<noteq> Some [] \<longrightarrow> Hostname d \<noteq> [])"

lemma fill_self_known: "IP d = ln_ip local \<Longrightarrow>
    self_known host local (fill_self (if_hwaddr (ln_interface local)) (case host of Some h \<Rightarrow> h | None \<Rightarrow> '''') d)"
  by (auto simp: self_known_def fill_self_def Let_def split: option.splits)

lemma self_device_known: "is_ip4 (ln_ip local) \<Longrightarrow>
    self_known host local (self_device (if_hwaddr (ln_interface local)) (case host of Some h \<Rightarrow> h | None \<Rightarrow> '''') local)"
  by (auto simp: self_known_def self_device_def is_ip4_def Let_def split: option.splits)

lemma ensureSelf_cases:
  assumes "is_ip4 (ln_ip local)" "\<forall>d \<in> set devices. is_ip4 (IP d)" "distinct (map IP devices)"
  obtains (there) us d vs where "devices = us @ d # vs" "IP d = ln_ip local"
      "ensureSelf host devices local =
         us @ fill_self (if_hwaddr (ln_interface local)) (case host of Some h \<Rightarrow> h | None \<Rightarrow> '''') d # vs"
    | (missing) "ln_ip local \<notin> set (map IP devices)"
      "ensureSelf host devices local =
         devices @ [self_device (if_hwaddr (ln_interface local)) (case host of Some h \<Rightarrow> h | None \<Rightarrow> '''') local]"
proof (cases "first_index (is_self local) devices")
  case None
  then have "\<forall>d \<in> set devices. \<not> is_self local d"
    by (simp add: first_index_None)
  then have "ln_ip local \<notin> set (map IP devices)"
    using assms(1,2) by (auto simp: is_self_iff)
  then show ?thesis
    using missing None by (simp add: ensureSelf_def Let_def)
next
  case (Some i)
  then have i: "i < length devices" "is_self local (devices ! i)"
    using first_index_Some by blast+
  then have "IP (devices ! i) = ln_ip local"
    using is_self_iff assms(1,2) by simp
  then show ?thesis
    using there[OF id_take_nth_drop[OF i(1)]] Some i(1) by (simp add: ensureSelf_def Let_def upd_conv_take_nth_drop)
qed

lemma fill_self_printable: "printable d \<Longrightarrow> printable (fill_self mac h d)"
  by (simp add: printable_def fill_self_def Lookup_type_not_Nil Let_def)

lemma self_device_printable: "is_ip4 (ln_ip local) \<Longrightarrow> printable (self_device mac h local)"
  by (simp add: printable_def self_device_def Lookup_type_not_Nil is_ip4_def StatusUp_def Let_def)

subsection \<open>The rows of the table\<close>

lemma pipeline_printable:
  assumes "map_order (mc_merge_iter mc)" "ssh_fair mc opts cfg req"
    and "pipeline_Run (mc_merge_iter mc) ctx_err (Some (scan_methods mc opts cfg)) req w = ((rows, r), w')"
  shows "(\<forall>row \<in> set rows. printable row) \<and> distinct (map IP rows)"
proof -
  have row: "printable row" if row: "row \<in> set rows" for row
  proof -
    obtain ds where ds: "ds \<noteq> []" "row = finish_row (merged_row ds)" "\<forall>d \<in> set ds. host_up mc opts cfg req d"
      using hits.rows_ok[OF assms(1,3) row] by blast
    then have "is_ip4 (IP (hd ds))"
      using assms(2) by (simp add: host_up_def)
    then show ?thesis
      using ds(2) to4_ip4[of "IP (hd ds)"]
      by (simp add: printable_def merged_row_fields device_addr_def is_ip4_def StatusUp_def TypeUnknown_def Let_def)
  qed
  moreover have "distinct (map IP rows)"
    using pipeline_Run_distinct[OF assms(1,3)] by (metis (mono_tags, lifting) distinct_map comp_def inj_on_def map_map)
  ultimately show ?thesis
    by blast
qed

text \<open>The lookups run by the step relation, with any answers.\<close>

definition dns_fair :: "'w machine \<Rightarrow> bool" where
  "dns_fair mc \<longleftrightarrow>
     (\<forall>devices w. (lookup_step (\<lambda>a ans. True))\<^sup>*\<^sup>* (lookup_start devices) (fst (mc_dns_run mc (lookup_start devices) w)))"

text \<open>What \<open>sort.Slice\<close> promises for a comparison that is an order on the rows.\<close>

definition sorts :: "(device list \<Rightarrow> device list) \<Rightarrow> bool" where
  "sorts f \<longleftrightarrow>
     (\<forall>ds. (\<forall>d \<in> set ds. is_ip4 (IP d)) \<longrightarrow>
       mset (f ds) = mset ds \<and> slice_sorted (\<lambda>d e. ipLess (IP d) (IP e)) (f ds))"

lemma Hostnames_rows:
  assumes "dns_fair mc" "Hostnames (mc_dns_run mc) devices w = (devices', w')"
  shows "map IP devices' = map IP devices \<and> ((\<forall>d \<in> set devices. printable d) \<longrightarrow> (\<forall>d \<in> set devices'. printable d))"
proof -
  let ?s = "fst (mc_dns_run mc (lookup_start devices) w)"
  have "(lookup_step (\<lambda>a ans. True))\<^sup>*\<^sup>* (lookup_start devices) ?s"
    using assms(1) unfolding dns_fair_def by blast
  then have ok: "lookups_ok (\<lambda>a ans. True) devices ?s"
    by (rule dns.inv_reachable[OF refl])
  have devs: "devices' = lk_devices ?s"
    using assms(2) by (auto simp: Hostnames_def split: prod.splits)
  have kept: "IP (take_answer ans d) = IP d \<and> printable (take_answer ans d) = printable d" for ans d
    by (simp add: take_answer_def printable_def split: option.split)
  have len: "length devices' = length devices"
    using ok devs by (simp add: lookups_ok_def)
  have each: "IP (devices' ! i) = IP (devices ! i) \<and> printable (devices' ! i) = printable (devices ! i)"
    if "i < length devices" for i
    using ok that kept unfolding devs lookups_ok_def by metis
  have "map IP devices' = map IP devices"
    by (rule nth_equalityI) (use len each in auto)
  moreover have "printable d" if "\<forall>d \<in> set devices. printable d" "d \<in> set devices'" for d
    using that len each by (metis in_set_conv_nth)
  ultimately show ?thesis
    by blast
qed

lemma ensureSelf_rows:
  assumes "is_ip4 (ln_ip local)" "\<forall>d \<in> set devices. printable d" "distinct (map IP devices)"
  shows "(\<forall>d \<in> set (ensureSelf host devices local). printable d) \<and> distinct (map IP (ensureSelf host devices local)) \<and>
    set (map IP (ensureSelf host devices local)) = insert (ln_ip local) (set (map IP devices)) \<and>
    (\<exists>d \<in> set (ensureSelf host devices local). self_known host local d)"
proof -
  have four: "\<forall>d \<in> set devices. is_ip4 (IP d)"
    using assms(2) by (simp add: printable_def)
  have to4: "to4 (ln_ip local) = ln_ip local"
    using assms(1) by (simp add: is_ip4_def)
  show ?thesis
  proof (cases rule: ensureSelf_cases[OF assms(1) four assms(3), of host, case_names there missing])
    case (there us d vs)
    then show ?thesis
      using assms(2,3) fill_self_known[OF there(2), of host] fill_self_printable by auto
  next
    case missing
    then show ?thesis
      using assms self_device_known[OF assms(1), of host] self_device_printable to4 by auto
  qed
qed

lemma final_rows_ok:
  assumes "is_ip4 (ln_ip local)" "sorts (mc_sort mc)" "dns_fair mc"
    and "\<forall>d \<in> set devices. printable d" "distinct (map IP devices)"
    and "final_rows mc opts local devices w = (rows, w')"
  shows "sorted_wrt (\<lambda>d e. ip_num (IP d) < ip_num (IP e)) rows \<and> (\<forall>d \<in> set rows. printable d) \<and>
    set (map IP rows) = insert (ln_ip local) (set (map IP devices)) \<and>
    (\<exists>d \<in> set rows. self_known (mc_hostname mc) local d)"
proof -
  obtain named where named: "rows = mc_sort mc (ensureSelf (mc_hostname mc) named local)"
    "map IP named = map IP devices" "\<forall>d \<in> set named. printable d"
  proof (cases "\<not> o_noDNS opts \<and> length devices > 0")
    case True
    obtain named w1 where "Hostnames (mc_dns_run mc) devices w = (named, w1)"
      by (metis surj_pair)
    then show ?thesis
      using that[of named] Hostnames_rows[OF assms(3)] assms(4,6) True by (simp add: final_rows_def)
  next
    case False
    then show ?thesis
      using that[of devices] assms(4,6) by (auto simp: final_rows_def)
  qed
  note self = ensureSelf_rows[OF assms(1) named(3), of "mc_hostname mc", unfolded named(2), OF assms(5)]
  let ?rows = "ensureSelf (mc_hostname mc) named local"
  have four: "\<forall>d \<in> set ?rows. is_ip4 (IP d)"
    using self by (simp add: printable_def)
  then have sorted: "mset rows = mset ?rows" "slice_sorted (\<lambda>d e. ipLess (IP d) (IP e)) rows"
    using assms(2) named(1) unfolding sorts_def by blast+
  then have sets: "set rows = set ?rows"
    by (metis mset_eq_setD)
  have "distinct (map IP rows)"
    using self sorted(1) by (metis mset_eq_imp_distinct_iff mset_map)
  then have "sorted_wrt (\<lambda>d e. ip_num (IP d) < ip_num (IP e)) rows"
    using rows_sorted_strictly[OF sorted(2)] four sets by simp
  then show ?thesis
    using self sets by simp
qed

lemma scan_success:
  assumes "scan mc opts env local hosts w = (0, w')"
  obtains devices rows w0 w1 w2 w3 d where
    "pipeline_Run (mc_merge_iter mc) (mc_ctx_err mc) (Some (scan_methods mc opts (ssh_settings env)))
       (scan_request mc opts local hosts) w0 = ((devices, None), w1)"
    "final_rows mc opts local devices w2 = (rows, w3)"
    "w' = (let w4 = mc_say mc (Tables (printTable rows)) (mc_say mc (FoundLine (length rows) d) w3)
           in if mc_ctx_err mc w4 then mc_say mc NoteEarly w4 else w4)"
proof -
  let ?w0 = "fold (mc_say mc) (banner opts (ssh_settings env) local hosts) w"
  let ?w1 = "mc_deadline mc (o_scanTimeout opts) ?w0"
  let ?w2 = "if o_quiet opts then ?w1 else mc_set_progress mc progress_start ?w1"
  obtain t0 w3 where now: "mc_now mc ?w2 = (t0, w3)"
    by (metis surj_pair)
  obtain devices err w4 where run: "pipeline_Run (mc_merge_iter mc) (mc_ctx_err mc)
      (Some (scan_methods mc opts (ssh_settings env))) (scan_request mc opts local hosts) w3 = ((devices, err), w4)"
    by (metis surj_pair)
  obtain t1 w5 where stop: "mc_now mc w4 = (t1, w5)"
    by (metis surj_pair)
  obtain rows w6 where rows: "final_rows mc opts local devices w5 = (rows, w6)"
    by (metis surj_pair)
  have "err = None"
    using assms now run stop unfolding scan_def Let_def by (cases err) simp_all
  then show ?thesis
    using that[where d = "t1 - t0", OF _ rows] run assms now stop rows unfolding scan_def Let_def by simp
qed

text \<open>When the scanning host had no hardware address in its row, vendor and type are replaced as well, also
  those that an SSH session has confirmed.\<close>

lemma fill_self_replaces:
  "MAC d = [] \<Longrightarrow> mac \<noteq> [] \<Longrightarrow> Vendor (fill_self mac h d) = Lookup mac \<and> Type (fill_self mac h d) = InferType (Lookup mac)"
  by (simp add: fill_self_def Let_def)

lemma stages_in_order:
  "sorted (chosen_stages noPing ssh)" "distinct (chosen_stages noPing ssh)" "ARP \<in> set (chosen_stages noPing ssh)"
  by (auto simp: chosen_stages_def less_eq_stage_def)

lemma scan_methods_fatal:
  "m \<in> set (scan_methods mc opts cfg) \<Longrightarrow> \<not> m_SoftFail m \<Longrightarrow> m = arp_method (mc_arp_iter mc) (mc_pcap mc)"
  by (auto simp: scan_methods_def stage_method_def icmp_method_def ssh_method_def split: stage.splits)

lemma scan_failure:
  assumes "scan mc opts env local hosts w = (1, w')"
  obtains e devices w0 w1 w2 where
    "pipeline_Run (mc_merge_iter mc) (mc_ctx_err mc) (Some (scan_methods mc opts (ssh_settings env)))
       (scan_request mc opts local hosts) w0 = ((devices, Some e), w1)"
    "w' = mc_say mc (if privilege_error e then PrivilegeHelp e else ErrScan e) w2"
  using assms unfolding scan_def Let_def by (auto split: prod.splits option.splits if_splits)

lemma scan_codes: "fst (scan mc opts env local hosts w) \<in> {0, 1}"
  unfolding scan_def Let_def by (auto split: prod.splits option.splits)

subsection \<open>Properties\<close>

text \<open>C1.  The table at the end of a successful scan, however the stages, the lookups and the unstable sort
  behave: one row for every address that the pipeline reported and one for the scanning host, in
  strictly increasing numeric order, every row complete enough to be printed, and the row of the
  scanning host with its hardware address and its name if the system knows them.\<close>

theorem scan_table:
  assumes "Detect (mc_net mc) name = Inr local" "scan mc opts env local hosts w = (0, w')"
    and "map_order (mc_merge_iter mc)" "sorts (mc_sort mc)" "dns_fair mc"
    and "ssh_fair mc opts (ssh_settings env) (scan_request mc opts local hosts)"
  shows "\<exists>devices rows w0 w1 w2 d.
    pipeline_Run (mc_merge_iter mc) (mc_ctx_err mc) (Some (scan_methods mc opts (ssh_settings env)))
       (scan_request mc opts local hosts) w0 = ((devices, None), w1) \<and>
    set (map IP rows) = insert (ln_ip local) (set (map IP devices)) \<and>
    sorted_wrt (\<lambda>d e. ip_num (IP d) < ip_num (IP e)) rows \<and> (\<forall>d \<in> set rows. printable d) \<and>
    (\<exists>d \<in> set rows. self_known (mc_hostname mc) local d) \<and>
    w' = (let w3 = mc_say mc (Tables (printTable rows)) (mc_say mc (FoundLine (length rows) d) w2)
          in if mc_ctx_err mc w3 then mc_say mc NoteEarly w3 else w3)"
proof -
  obtain devices rows w0 w1 w2 w3 d where s:
    "pipeline_Run (mc_merge_iter mc) (mc_ctx_err mc) (Some (scan_methods mc opts (ssh_settings env)))
       (scan_request mc opts local hosts) w0 = ((devices, None), w1)"
    "final_rows mc opts local devices w2 = (rows, w3)"
    "w' = (let w4 = mc_say mc (Tables (printTable rows)) (mc_say mc (FoundLine (length rows) d) w3)
           in if mc_ctx_err mc w4 then mc_say mc NoteEarly w4 else w4)"
    by (rule scan_success[OF assms(2)])
  have "is_ip4 (ln_ip local)"
    using Detect_usable[OF assms(1)] by (simp add: usable_net_def)
  note rows = final_rows_ok[OF this assms(4,5) _ _ s(2)]
  show ?thesis
    using s rows pipeline_printable[OF assms(3,6) s(1)] by blast
qed


text \<open>C9.  A scan is given up only for the ARP sweep: whatever the ping and the SSH stage report, an exit code
  of 1 comes from an error that the sweep itself returned, and that error is what is written.\<close>

theorem scan_fatal:
  assumes "scan mc opts env local hosts w = (1, w')"
  shows "\<exists>e devs w0 w1 w2.
    m_Run (arp_method (mc_arp_iter mc) (mc_pcap mc)) (scan_request mc opts local hosts) w0 = ((devs, Some e), w1) \<and>
    w' = mc_say mc (if privilege_error e then PrivilegeHelp e else ErrScan e) w2"
proof -
  obtain e devices w0 w1 w2 where s:
    "pipeline_Run (mc_merge_iter mc) (mc_ctx_err mc) (Some (scan_methods mc opts (ssh_settings env)))
       (scan_request mc opts local hosts) w0 = ((devices, Some e), w1)"
    "w' = mc_say mc (if privilege_error e then PrivilegeHelp e else ErrScan e) w2"
    by (rule scan_failure[OF assms])
  obtain hs where "stage_hits (mc_ctx_err mc) (scan_request mc opts local hosts)
      (scan_methods mc opts (ssh_settings env)) w0 = ((hs, Some e), w1)"
    using s(1) by (auto simp: pipeline_Run_hits Let_def split: prod.splits)
  from stage_hits_fatal[OF this] obtain m devs w3 where
    "m \<in> set (scan_methods mc opts (ssh_settings env))" "\<not> m_SoftFail m"
    "m_Run m (scan_request mc opts local hosts) w3 = ((devs, Some e), w1)"
    by fastforce
  then show ?thesis
    using scan_methods_fatal s(2) by metis
qed


subsection \<open>A scan\<close>

text \<open>The ping stage finds no socket, the sweep runs in the world of \<open>demo_env\<close>.\<close>

definition demo_machine :: "demo_world pcap_env \<Rightarrow> demo_world machine" where
  "demo_machine pcap =
     \<lparr>mc_environ = (\<lambda>k. None), mc_file = (\<lambda>p. NotExist), mc_net = demo_os, mc_hostname = Some ''me'',
      mc_now = (\<lambda>w. (0, w)), mc_deadline = (\<lambda>d w. w), mc_ctx_err = (\<lambda>w. False), mc_say = (\<lambda>m w. w),
      mc_progress = (\<lambda>w. progress_start), mc_set_progress = (\<lambda>p w. w),
      mc_icmp = \<lparr>ie_listen = (\<lambda>n a w. (Some ''denied'', w)), ie_parse = demo_parse, ie_marshal = (\<lambda>m. Some []),
        ie_pid = 7, ie_pool = (\<lambda>cfg d s w. (s, w)), ie_close = (\<lambda>w. w)\<rparr>,
      mc_pcap = pcap, mc_ssh = \<lparr>se_dial = (\<lambda>addr u p t w. (None, w)), se_tcp = (\<lambda>addr t w. (False, w))\<rparr>,
      mc_ssh_run = (\<lambda>cfg n s w. (s, w)), mc_dns_run = (\<lambda>s w. (s, w)), mc_sort = sort_key (\<lambda>d. ip_num (IP d)),
      mc_env_iter = (\<lambda>m. m), mc_icmp_iter = (\<lambda>m. m), mc_arp_iter = (\<lambda>m. m), mc_merge_iter = (\<lambda>m. m)\<rparr>"

lemma demo_machine_fields:
  "mc_now (demo_machine pcap) w = (0, w)" "mc_deadline (demo_machine pcap) t w = w" "mc_ctx_err (demo_machine pcap) = (\<lambda>w. False)"
  "mc_say (demo_machine pcap) m w = w" "mc_merge_iter (demo_machine pcap) = (\<lambda>m. m)"
  by (simp_all add: demo_machine_def)

definition demo_options :: options where
  "demo_options = default_options\<lparr>o_quiet := True, o_workers := 0, o_timeout := 0\<rparr>"

definition demo_targets :: "ip list" where
  "demo_targets = [[192, 168, 7, 9], [192, 168, 7, 11]]"

definition demo_closed :: "demo_world pcap_env" where
  "demo_closed = demo_env\<lparr>env_open := (\<lambda>h n w. (Some (OtherError False ''denied''), w))\<rparr>"

lemma demo_sorts: "sorts (sort_key (\<lambda>d. ip_num (IP d)))"
  unfolding sorts_def slice_sorted_def
proof (intro allI impI conjI)
  fix ds
  assume four: "\<forall>d \<in> set ds. is_ip4 (IP d)"
  have "sorted_wrt (\<lambda>d e. ip_num (IP d) \<le> ip_num (IP e)) (sort_key (\<lambda>d. ip_num (IP d)) ds)"
    using sorted_sort_key[of "\<lambda>d. ip_num (IP d)" ds] by (simp add: sorted_map)
  then show "sorted_wrt (\<lambda>d e. \<not> ipLess (IP e) (IP d)) (sort_key (\<lambda>d. ip_num (IP d)) ds)"
    by (rule sorted_wrt_mono_rel[rotated]) (use four in \<open>auto simp: ipLess_ip4\<close>)
qed simp

lemma demo_laws:
  "Detect (mc_net (demo_machine pcap)) [] = Inr demo_net" "map_order (mc_merge_iter (demo_machine pcap))"
  "sorts (mc_sort (demo_machine pcap))" "dns_fair (demo_machine pcap)"
  "ssh_fair (demo_machine pcap) demo_options cfg req"
  using demo_detect demo_sorts
  by (simp_all add: demo_machine_def dns_fair_def ssh_fair_def ssh_wanted_def demo_options_def default_options_def)

lemma demo_methods:
  "scan_methods (demo_machine pcap) demo_options cfg =
   [icmp_method (\<lambda>m. m) (mc_icmp (demo_machine pcap)) 3 0, arp_method (\<lambda>m. m) pcap]"
  by (simp add: scan_methods_def chosen_stages_def stage_method_def demo_machine_def demo_options_def default_options_def
      ssh_wanted_def ping_count_def DefaultAttempts_def)

lemma demo_scan_steps:
  "fst (scan (demo_machine pcap) demo_options env demo_net demo_targets demo_start) =
   (case snd (fst (Scan (\<lambda>m. m) pcap (ln_interface demo_net) (ln_ip demo_net) demo_targets demo_opts demo_start)) of
      None \<Rightarrow> 0 | Some e \<Rightarrow> 1)"
proof -
  let ?req = "scan_request (demo_machine pcap) demo_options demo_net demo_targets"
  obtain devs r w1 where arp: "Scan (\<lambda>m. m) pcap (ln_interface demo_net) (ln_ip demo_net) demo_targets demo_opts demo_start =
      ((devs, r), w1)"
    by (metis surj_pair)
  have "m_Run (arp_method (\<lambda>m. m) pcap) ?req demo_start = ((devs, r), w1)"
    using arp by (simp add: arp_method_def scan_request_def demo_options_def default_options_def demo_opts_def)
  moreover have "m_Run (icmp_method (\<lambda>m. m) (mc_icmp (demo_machine pcap)) 3 0) ?req demo_start =
      (([], Some (''icmp listen: denied'')), demo_start)"
    by (simp add: icmp_method_def icmp_Run_def scan_request_def demo_machine_def demo_targets_def listenICMP_def Let_def)
  moreover have "m_SoftFail (icmp_method (\<lambda>m. m) env 3 0)" "\<not> m_SoftFail (arp_method (\<lambda>m. m) pcap)" for env :: "demo_world icmp_env"
    by (simp_all add: icmp_method_def arp_method_def)
  moreover have "case_option w (\<lambda>warn. warn m e w) (req_Warn ?req) = w" for m e w
    by (simp add: scan_request_def demo_machine_fields)
  ultimately have "snd (fst (pipeline_Run (\<lambda>m. m) (\<lambda>w. False) (Some (scan_methods (demo_machine pcap) demo_options cfg))
      ?req demo_start)) = r" for cfg
    by (cases r) (simp_all add: demo_methods pipeline_Run_def)
  moreover have "fold (mc_say (demo_machine pcap)) ms w = w" for ms w
    by (induction ms) (simp_all add: demo_machine_fields)
  moreover have "o_quiet demo_options"
    by (simp add: demo_options_def)
  ultimately show ?thesis
    using arp by (simp add: scan_def demo_machine_fields Let_def case_prod_beta split: option.splits)
qed

lemma demo_scan_ok: "fst (scan (demo_machine demo_env) demo_options env demo_net demo_targets demo_start) = 0"
  using demo_scan_result(1) unfolding demo_scan_steps by (simp add: demo_scan_def demo_targets_def)

lemma demo_scan_closed: "fst (scan (demo_machine demo_closed) demo_options env demo_net demo_targets demo_start) = 1"
  unfolding demo_scan_steps by (simp add: Scan_def demo_closed_def demo_net_def demo_targets_def Let_def)

theorem scan_table_witness:
  "\<exists>rows. sorted_wrt (\<lambda>d e. ip_num (IP d) < ip_num (IP e)) rows \<and> ln_ip demo_net \<in> set (map IP rows) \<and>
     (\<exists>d \<in> set rows. self_known (Some ''me'') demo_net d)"
proof -
  obtain w' where s: "scan (demo_machine demo_env) demo_options (\<lambda>k. None) demo_net demo_targets demo_start = (0, w')"
    using demo_scan_ok by (metis prod.collapse)
  show ?thesis
    using scan_table[OF demo_laws(1) s demo_laws(2,3,4,5)] by (auto simp: demo_machine_def)
qed

theorem scan_fatal_witness:
  "\<exists>e devs w0 w1. m_Run (arp_method (\<lambda>m. m) demo_closed) (scan_request (demo_machine demo_closed) demo_options demo_net demo_targets) w0 =
     ((devs, Some e), w1)"
proof -
  obtain w' where s: "scan (demo_machine demo_closed) demo_options (\<lambda>k. None) demo_net demo_targets demo_start = (1, w')"
    using demo_scan_closed by (metis prod.collapse)
  show ?thesis
    using scan_fatal[OF s] by (auto simp: demo_machine_def)
qed

definition demo_calls :: "(int \<times> int \<times> int) list" where
  "demo_calls = [(0, 0, 1), (5, 6, 2), (7, 8, 4)]"


end
