(* ===== verification/OuiFacts.thy ===== *)
theory OuiFacts
  imports Oui
begin

text \<open>
  What the embedded vendor table gives: a vendor other than \<open>Unknown\<close> always has a role, and the
  entries whose first octet carries the locally-administered bit can never be returned.
\<close>

subsection \<open>Facts about the table\<close>

text \<open>The vendors of the table, each with a hint by which \<open>InferType\<close> recognises it.\<close>

definition vendor_hint_table :: "(string \<times> string) list" where
  "vendor_hint_table =
    [(''Cisco'', ''cisco''), (''Ubiquiti'', ''ubiquiti''), (''TP-Link'', ''tp-link''),
     (''Netgear'', ''netgear''), (''ASUS'', ''asus''), (''MikroTik'', ''mikrotik''),
     (''Aruba'', ''aruba''), (''Juniper'', ''juniper''), (''HP'', ''hp''), (''Apple'',
     ''apple''), (''Samsung'', ''samsung''), (''Google'', ''google''), (''Nest'', ''nest''),
     (''Microsoft'', ''microsoft''), (''Intel'', ''intel''), (''Dell'', ''dell''),
     (''Cisco/Linksys'', ''cisco''), (''Sony'', ''sony''), (''Raspberry Pi'', ''raspberry''),
     (''Espressif'', ''espressif''), (''Amazon'', ''amazon''), (''Sonos'', ''sonos''),
     (''Roku'', ''roku''), (''Philips Hue'', ''philips''), (''Xiaomi'', ''xiaomi''),
     (''VMware'', ''vmware''), (''VirtualBox'', ''virtualbox''), (''QEMU/KVM'', ''qemu''),
     (''Parallels'', ''parallels''), (''Realtek'', ''realtek''), (''Broadcom'', ''broadcom'')]"

lemma vendors_network_names:
  "remdups_adj (map snd vendors_network) =
    [''Cisco'', ''Ubiquiti'', ''TP-Link'', ''Netgear'', ''ASUS'', ''MikroTik'', ''Aruba'', ''Juniper'', ''HP'']"
  by (simp add: vendors_network_def)

lemma vendors_compute_names:
  "remdups_adj (map snd vendors_compute) =
    [''Apple'']"
  by (simp add: vendors_compute_def)

lemma vendors_consumer_names:
  "remdups_adj (map snd vendors_consumer) =
    [''Samsung'', ''Google'', ''Nest'', ''Microsoft'', ''Intel'', ''Dell'', ''Cisco/Linksys'', ''Sony'', ''TP-Link'', ''HP'']"
  by (simp add: vendors_consumer_def)

lemma vendors_iot_names:
  "remdups_adj (map snd vendors_iot) =
    [''Raspberry Pi'', ''Espressif'', ''Amazon'', ''Sonos'', ''Roku'', ''Philips Hue'', ''Xiaomi'']"
  by (simp add: vendors_iot_def)

lemma vendors_virtual_names:
  "remdups_adj (map snd vendors_virtual) =
    [''VMware'', ''VirtualBox'', ''QEMU/KVM'', ''Parallels'', ''Realtek'', ''Broadcom'']"
  by (simp add: vendors_virtual_def)

lemma vendors_known: "set (map snd vendors) \<subseteq> set (map fst vendor_hint_table)"
proof -
  have "set (map snd vendors) =
      set (remdups_adj (map snd vendors_network)) \<union> set (remdups_adj (map snd vendors_compute)) \<union>
      set (remdups_adj (map snd vendors_consumer)) \<union> set (remdups_adj (map snd vendors_iot)) \<union>
      set (remdups_adj (map snd vendors_virtual))"
    by (auto simp: vendors_def)
  then show ?thesis
    unfolding vendors_network_names vendors_compute_names vendors_consumer_names vendors_iot_names
      vendors_virtual_names by (simp add: vendor_hint_table_def)
qed

lemma vendor_hints_ok:
  "list_all (\<lambda>(v, h). to_lower v \<noteq> [] \<and> to_lower v \<noteq> ''unknown'' \<and> contains (to_lower v) h \<and>
     List.member (network_hints @ end_hints @ [''realtek'', ''broadcom'']) h) vendor_hint_table"
  by code_simp

lemma vendors_classified:
  assumes "(k, v) \<in> set vendors"
  shows "InferType v \<noteq> TypeUnknown"
proof -
  have "v \<in> set (map fst vendor_hint_table)"
    using assms vendors_known by force
  then obtain h where "(v, h) \<in> set vendor_hint_table"
    by auto
  then show ?thesis
    using vendor_hints_ok by (intro InferType_hint[where h = h]) (auto simp: list_all_iff)
qed

text \<open>The entries whose first octet has the U/L bit: the early return hides them.\<close>

definition first_octet :: "string \<Rightarrow> nat" where
  "first_octet k =
     (case (hex_val (k ! 0), hex_val (k ! 1)) of (Some a, Some b) \<Rightarrow> 16 * a + b | _ \<Rightarrow> 0)"

lemma hex_val_upper: "n < 16 \<Longrightarrow> hex_val (upper_byte (hex_digit n)) = Some n"
proof -
  have "list_all (\<lambda>n. hex_val (upper_byte (hex_digit n)) = Some n) [0..<16]"
    by code_simp
  then show "n < 16 \<Longrightarrow> hex_val (upper_byte (hex_digit n)) = Some n"
    by (simp add: list_all_iff)
qed

lemma first_octet_oui_key: "first_octet (oui_key a b c) = unat a"
proof -
  have "unat a < 256"
    using unsigned_less[of a, where 'a = nat] by simp
  then show ?thesis
    by (simp add: first_octet_def oui_key_def hex_byte_upper_def hex_byte_def hex_val_upper)
qed

lemma Lookup_entry:
  assumes "Lookup mac = v" "v \<noteq> Unknown" "v \<noteq> ''Randomized MAC''"
  shows "3 \<le> length mac \<and> mac ! 0 AND 2 = 0 \<and> (oui_key (mac ! 0) (mac ! 1) (mac ! 2), v) \<in> set vendors"
  using assms by (auto simp: Lookup_def map_of_SomeD split: if_splits option.splits)

lemma role_of_randomized: "InferType ''Randomized MAC'' = TypeEnd"
  by code_simp

lemma vendors_network_qemu:
  "list_all (\<lambda>(k, v). v = ''QEMU/KVM'' \<longrightarrow> k = ''52:54:00'') vendors_network"
  by (simp add: vendors_network_def)

lemma vendors_compute_qemu:
  "list_all (\<lambda>(k, v). v = ''QEMU/KVM'' \<longrightarrow> k = ''52:54:00'') vendors_compute"
  by (simp add: vendors_compute_def)

lemma vendors_consumer_qemu:
  "list_all (\<lambda>(k, v). v = ''QEMU/KVM'' \<longrightarrow> k = ''52:54:00'') vendors_consumer"
  by (simp add: vendors_consumer_def)

lemma vendors_iot_qemu:
  "list_all (\<lambda>(k, v). v = ''QEMU/KVM'' \<longrightarrow> k = ''52:54:00'') vendors_iot"
  by (simp add: vendors_iot_def)

lemma vendors_virtual_qemu:
  "list_all (\<lambda>(k, v). v = ''QEMU/KVM'' \<longrightarrow> k = ''52:54:00'') vendors_virtual"
  by (simp add: vendors_virtual_def)

lemma vendors_qemu:
  assumes "(k, ''QEMU/KVM'') \<in> set vendors"
  shows "k = ''52:54:00''"
proof -
  have pick: "k = ''52:54:00''"
    if "list_all (\<lambda>(k, v). v = ''QEMU/KVM'' \<longrightarrow> k = ''52:54:00'') xs" "(k, ''QEMU/KVM'') \<in> set xs" for xs
    using that by (induction xs) auto
  show ?thesis
    using assms pick[OF vendors_network_qemu] pick[OF vendors_compute_qemu]
      pick[OF vendors_consumer_qemu] pick[OF vendors_iot_qemu] pick[OF vendors_virtual_qemu]
    unfolding vendors_def set_append Un_iff by argo
qed

text \<open>The entry of QEMU and KVM guests is never returned: its prefix has the locally-administered
  bit, for which \<open>Lookup\<close> answers \<open>Randomized MAC\<close> before it looks into the table.\<close>

lemma Lookup_never_qemu: "Lookup mac \<noteq> ''QEMU/KVM''"
proof
  assume "Lookup mac = ''QEMU/KVM''"
  then have m: "mac ! 0 AND 2 = 0" "(oui_key (mac ! 0) (mac ! 1) (mac ! 2), ''QEMU/KVM'') \<in> set vendors"
    using Lookup_entry[of mac "''QEMU/KVM''"] by (auto simp: Unknown_def)
  then have "oui_key (mac ! 0) (mac ! 1) (mac ! 2) = ''52:54:00''"
    using vendors_qemu by blast
  then have "unat (mac ! 0) = first_octet ''52:54:00''"
    by (metis first_octet_oui_key)
  then have "unat (mac ! 0) = unat (82 :: byte)"
    by (simp add: first_octet_def hex_val_def byte_val_def)
  then have "mac ! 0 = 82"
    by (simp only: word_unat_eq_iff)
  then show False
    using m(1) by simp
qed

text \<open>A vendor that the table knows has a role: \<open>InferType\<close> answers \<open>Unknown\<close> for none of the
  vendors that \<open>Lookup\<close> can return.\<close>

lemma Lookup_role:
  assumes "Lookup mac \<noteq> Unknown"
  shows "InferType (Lookup mac) \<in> {TypeNetwork, TypeEnd}"
proof (cases "Lookup mac = ''Randomized MAC''")
  case True
  then show ?thesis
    by (simp add: role_of_randomized)
next
  case False
  then have "InferType (Lookup mac) \<noteq> TypeUnknown"
    using Lookup_entry[OF refl assms False] vendors_classified by blast
  then show ?thesis
    using InferType_range[of "Lookup mac"] by blast
qed

end
