(* ===== verification/SshClient.thy ===== *)
theory SshClient
  imports Sshprobe
begin

text \<open>
  \<open>internal/sshprobe/client.go\<close>: the connection behind the SSH stage.  Package \<open>golang.org/x/crypto/ssh\<close>
  and the sockets are a record of operations on the world, with one connection and one session at a
  time, as the stage uses them; \<open>client_env\<close> is the network that \<open>probeOne\<close> sees.  The goroutine that
  closes a session when its time is up is a step relation of its own.
\<close>

subsection \<open>The library\<close>

datatype auth_method = Password string | KeyboardInteractive "string list \<Rightarrow> string list"

record client_config =
  cc_User :: string
  cc_Auth :: "auth_method list"
  cc_AnyHostKey :: bool
  cc_Timeout :: int

text \<open>An error is its text, \<open>None\<close> for nil.  \<open>sl_wait\<close> waits for the shell to end, for at most the time
  given, and tells whether the time was up; \<open>sl_buffer\<close> is what the session has written so far.\<close>

record 'w ssh_lib =
  sl_dial :: "string \<Rightarrow> int \<Rightarrow> 'w \<Rightarrow> string option \<times> 'w"
  sl_deadline :: "int option \<Rightarrow> 'w \<Rightarrow> string option \<times> 'w"
  sl_handshake :: "string \<Rightarrow> client_config \<Rightarrow> 'w \<Rightarrow> string option \<times> 'w"
  sl_close_conn :: "'w \<Rightarrow> 'w"
  sl_close_client :: "'w \<Rightarrow> 'w"
  sl_new_session :: "'w \<Rightarrow> string option \<times> 'w"
  sl_close_session :: "'w \<Rightarrow> 'w"
  sl_output :: "int \<Rightarrow> string \<Rightarrow> 'w \<Rightarrow> (string \<times> string option) \<times> 'w"
  sl_pty :: "string \<Rightarrow> nat \<Rightarrow> nat \<Rightarrow> (nat \<times> nat) list \<Rightarrow> 'w \<Rightarrow> string option \<times> 'w"
  sl_stdin :: "'w \<Rightarrow> string option \<times> 'w"
  sl_shell :: "'w \<Rightarrow> string option \<times> 'w"
  sl_write :: "string \<Rightarrow> 'w \<Rightarrow> string option \<times> 'w"
  sl_close_stdin :: "'w \<Rightarrow> 'w"
  sl_wait :: "int \<Rightarrow> 'w \<Rightarrow> bool \<times> 'w"
  sl_buffer :: "'w \<Rightarrow> string"
  sl_ctx_text :: string

subsection \<open>Connections\<close>

definition tcpOpen :: "'w ssh_lib \<Rightarrow> string \<Rightarrow> int \<Rightarrow> 'w \<Rightarrow> bool \<times> 'w" where
  "tcpOpen lib addr timeout w =
     (case sl_dial lib addr timeout w of
        (Some err, w1) \<Rightarrow> (False, w1)
      | (None, w1) \<Rightarrow> (True, sl_close_conn lib w1))"

text \<open>Every question of the keyboard-interactive dialogue is answered with the password.\<close>

definition answer_all :: "string \<Rightarrow> string list \<Rightarrow> string list" where
  "answer_all password questions = map (\<lambda>q. password) questions"

definition ssh_client_config :: "string \<Rightarrow> string \<Rightarrow> int \<Rightarrow> client_config" where
  "ssh_client_config user password timeout =
     \<lparr>cc_User = user, cc_Auth = [Password password, KeyboardInteractive (answer_all password)],
      cc_AnyHostKey = True, cc_Timeout = timeout\<rparr>"

subsection \<open>Sessions\<close>

definition CombinedOutput :: "'w ssh_lib \<Rightarrow> int \<Rightarrow> string \<Rightarrow> 'w \<Rightarrow> (string \<times> string option) \<times> 'w" where
  "CombinedOutput lib d cmd w =
     (case sl_new_session lib w of
        (Some err, w1) \<Rightarrow> (('''', Some err), w1)
      | (None, w1) \<Rightarrow> (let ((out, err), w2) = sl_output lib d cmd w1 in ((out, err), sl_close_session lib w2)))"

text \<open>The commands, up to the first that cannot be written.\<close>

fun write_cmds :: "'w ssh_lib \<Rightarrow> string list \<Rightarrow> 'w \<Rightarrow> 'w" where
  "write_cmds lib [] w = w"
| "write_cmds lib (cmd # cmds) w =
     (let (err, w1) = sl_write lib (cmd @ [CHR 0x0D]) w in if err \<noteq> None then w1 else write_cmds lib cmds w1)"

text \<open>\<open>ssh.ECHO\<close>, \<open>ssh.TTY_OP_ISPEED\<close> and \<open>ssh.TTY_OP_OSPEED\<close> are 53, 128 and 129.\<close>

definition tty_modes :: "(nat \<times> nat) list" where
  "tty_modes = [(53, 0), (128, 14400), (129, 14400)]"

text \<open>The session is open in \<open>shell_dialogue\<close>; the deferred close follows it.\<close>

definition shell_dialogue :: "'w ssh_lib \<Rightarrow> int \<Rightarrow> string list \<Rightarrow> 'w \<Rightarrow> (string \<times> string option) \<times> 'w" where
  "shell_dialogue lib d cmds w =
     (case sl_pty lib ''vt100'' 24 80 tty_modes w of
        (Some err, w1) \<Rightarrow> (('''', Some err), w1)
      | (None, w1) \<Rightarrow>
     (case sl_stdin lib w1 of
        (Some err, w2) \<Rightarrow> (('''', Some err), w2)
      | (None, w2) \<Rightarrow>
     (case sl_shell lib w2 of
        (Some err, w3) \<Rightarrow> (('''', Some err), w3)
      | (None, w3) \<Rightarrow>
          (let w4 = write_cmds lib cmds w3; (_, w5) = sl_write lib (''exit'' @ [CHR 0x0D]) w4;
               w6 = sl_close_stdin lib w5; (expired, w7) = sl_wait lib d w6
           in if expired then
                let w8 = sl_close_session lib w7 in ((sl_buffer lib w8, Some (sl_ctx_text lib)), w8)
              else ((sl_buffer lib w7, None), w7)))))"

definition ShellOutput :: "'w ssh_lib \<Rightarrow> int \<Rightarrow> string list \<Rightarrow> 'w \<Rightarrow> (string \<times> string option) \<times> 'w" where
  "ShellOutput lib d cmds w =
     (case sl_new_session lib w of
        (Some err, w1) \<Rightarrow> (('''', Some err), w1)
      | (None, w1) \<Rightarrow> (let (r, w2) = shell_dialogue lib d cmds w1 in (r, sl_close_session lib w2)))"

text \<open>\<open>Close\<close>; the client is nil or not.\<close>

definition runner_Close :: "'w ssh_lib \<Rightarrow> bool \<Rightarrow> 'w \<Rightarrow> 'w" where
  "runner_Close lib client w = (if \<not> client then w else sl_close_client lib w)"

definition sshRunner :: "'w ssh_lib \<Rightarrow> bool \<Rightarrow> 'w runner" where
  "sshRunner lib client =
     \<lparr>rn_exec = CombinedOutput lib, rn_shell = ShellOutput lib, rn_close = runner_Close lib client\<rparr>"

definition dialSSH :: "'w ssh_lib \<Rightarrow> string \<Rightarrow> string \<Rightarrow> string \<Rightarrow> int \<Rightarrow> 'w \<Rightarrow> (string + 'w runner) \<times> 'w" where
  "dialSSH lib addr user password timeout w =
     (case sl_dial lib addr timeout w of
        (Some err, w1) \<Rightarrow> (Inl err, w1)
      | (None, w1) \<Rightarrow>
     (case sl_deadline lib (Some timeout) w1 of
        (Some err, w2) \<Rightarrow> (Inl err, sl_close_conn lib w2)
      | (None, w2) \<Rightarrow>
     (case sl_handshake lib addr (ssh_client_config user password timeout) w2 of
        (Some err, w3) \<Rightarrow> (Inl err, sl_close_conn lib w3)
      | (None, w3) \<Rightarrow> (let (_, w4) = sl_deadline lib None w3 in (Inr (sshRunner lib True), w4)))))"

definition client_env :: "'w ssh_lib \<Rightarrow> 'w ssh_env" where
  "client_env lib =
     \<lparr>se_dial = (\<lambda>addr user password timeout w.
        (case dialSSH lib addr user password timeout w of (Inl err, w1) \<Rightarrow> (None, w1) | (Inr c, w1) \<Rightarrow> (Some c, w1))),
      se_tcp = tcpOpen lib\<rparr>"

subsection \<open>Interface: what the reading of a session needs of its runner\<close>

text \<open>Whatever the commands of a session keep, the whole reading of it keeps.\<close>

locale keeping_runner =
  fixes r :: "'w runner" and keeps :: "'w \<Rightarrow> bool"
  assumes exec_keeps: "keeps w \<Longrightarrow> keeps (snd (rn_exec r d cmd w))"
    and shell_keeps: "keeps w \<Longrightarrow> keeps (snd (rn_shell r d cmds w))"
begin

lemma gather_loop_keeps: "keeps w \<Longrightarrow> keeps (snd (gather_loop ctx_err r good cmds worked w))"
proof (induction cmds arbitrary: worked w)
  case (Cons cmd cmds)
  then show ?case
    using exec_keeps[of w cmdTimeout cmd] by (auto simp: Let_def split: prod.splits option.splits bool.splits)
qed simp

lemma gather_first_keeps: "keeps w \<Longrightarrow> keeps (snd (gather_first ctx_err r good cmds w))"
  using gather_loop_keeps[of w ctx_err good cmds False] shell_keeps
  by (auto simp: gather_first_def Let_def case_prod_beta split: gathered.splits prod.splits)

lemma health_loop_keeps: "keeps w \<Longrightarrow> keeps (snd (health_loop ctx_err r cmds b worked w))"
proof (induction cmds arbitrary: b worked w)
  case (Cons cmd cmds)
  then show ?case
    using exec_keeps[of w cmdTimeout cmd] by (auto simp: Let_def split: prod.splits)
qed simp

lemma gatherHealth_keeps: "keeps w \<Longrightarrow> keeps (snd (gatherHealth ctx_err r w))"
  using health_loop_keeps[of w ctx_err healthCommands "''''" False] shell_keeps
  by (auto simp: gatherHealth_def Let_def case_prod_beta split: sum.splits prod.splits)

lemma output_loop_keeps: "keeps w \<Longrightarrow> keeps (snd (output_loop ctx_err r cmds b ok w))"
proof (induction cmds arbitrary: b ok w)
  case (Cons cmd cmds)
  then show ?case
    using exec_keeps[of w cmdTimeout cmd] by (auto simp: Let_def split: prod.splits)
qed simp

lemma gatherOutput_keeps: "keeps w \<Longrightarrow> keeps (snd (gatherOutput ctx_err r exec shell w))"
  using output_loop_keeps[of w ctx_err exec "''''" False] shell_keeps
  by (auto simp: gatherOutput_def Let_def case_prod_beta)

lemma identify_keeps: "keeps w \<Longrightarrow> keeps (snd (identify ctx_err r w))"
  using gatherOutput_keeps by (simp add: identify_def Let_def case_prod_beta)

lemma collect_keeps: "keeps w \<Longrightarrow> keeps (snd (collect ctx_err r w))"
  using identify_keeps[of w ctx_err] gatherHealth_keeps[of _ ctx_err] gather_first_keeps[of _ ctx_err]
  by (auto simp: collect_def gatherLLDP_def gatherIfaces_def Let_def case_prod_beta split: option.splits)

end
subsection \<open>No connection and no session is left open\<close>

text \<open>What the library promises of the connection and the session: who opens them, who closes them, and that
  nothing else does either.  A handshake that fails may have closed the connection.\<close>

definition lib_ok :: "'w ssh_lib \<Rightarrow> ('w \<Rightarrow> bool) \<Rightarrow> ('w \<Rightarrow> bool) \<Rightarrow> bool" where
  "lib_ok lib conn sess \<longleftrightarrow>
     (\<forall>a t w. conn (snd (sl_dial lib a t w)) = (fst (sl_dial lib a t w) = None \<or> conn w) \<and>
        sess (snd (sl_dial lib a t w)) = sess w) \<and>
     (\<forall>a c w. (fst (sl_handshake lib a c w) = None \<longrightarrow> conn (snd (sl_handshake lib a c w)) = conn w) \<and>
        sess (snd (sl_handshake lib a c w)) = sess w) \<and>
     (\<forall>w. \<not> conn (sl_close_conn lib w) \<and> sess (sl_close_conn lib w) = sess w) \<and>
     (\<forall>w. \<not> conn (sl_close_client lib w) \<and> sess (sl_close_client lib w) = sess w) \<and>
     (\<forall>w. sess (snd (sl_new_session lib w)) = (fst (sl_new_session lib w) = None \<or> sess w) \<and>
        conn (snd (sl_new_session lib w)) = conn w) \<and>
     (\<forall>w. \<not> sess (sl_close_session lib w) \<and> conn (sl_close_session lib w) = conn w)"

definition unchanged :: "('w \<Rightarrow> bool) \<Rightarrow> ('w \<Rightarrow> bool) \<Rightarrow> 'w \<Rightarrow> 'w \<Rightarrow> bool" where
  "unchanged conn sess w w1 \<longleftrightarrow> conn w1 = conn w \<and> sess w1 = sess w"

definition lib_quiet :: "'w ssh_lib \<Rightarrow> ('w \<Rightarrow> bool) \<Rightarrow> ('w \<Rightarrow> bool) \<Rightarrow> bool" where
  "lib_quiet lib conn sess \<longleftrightarrow>
     (\<forall>t w. unchanged conn sess w (snd (sl_deadline lib t w))) \<and>
     (\<forall>d cmd w. unchanged conn sess w (snd (sl_output lib d cmd w))) \<and>
     (\<forall>term h k m w. unchanged conn sess w (snd (sl_pty lib term h k m w))) \<and>
     (\<forall>w. unchanged conn sess w (snd (sl_stdin lib w))) \<and> (\<forall>w. unchanged conn sess w (snd (sl_shell lib w))) \<and>
     (\<forall>s w. unchanged conn sess w (snd (sl_write lib s w))) \<and> (\<forall>w. unchanged conn sess w (sl_close_stdin lib w)) \<and>
     (\<forall>d w. unchanged conn sess w (snd (sl_wait lib d w)))"

definition honest :: "'w ssh_lib \<Rightarrow> ('w \<Rightarrow> bool) \<Rightarrow> ('w \<Rightarrow> bool) \<Rightarrow> bool" where
  "honest lib conn sess \<longleftrightarrow> lib_ok lib conn sess \<and> lib_quiet lib conn sess"

lemma honest_close:
  assumes "honest lib conn sess"
  shows "\<not> conn (sl_close_conn lib w)" "sess (sl_close_conn lib w) = sess w"
    "\<not> conn (sl_close_client lib w)" "sess (sl_close_client lib w) = sess w"
    "\<not> sess (sl_close_session lib w)" "conn (sl_close_session lib w) = conn w"
  using assms by (simp_all add: honest_def lib_ok_def)

lemma honest_deadline:
  assumes "honest lib conn sess"
  shows "conn (snd (sl_deadline lib t w)) = conn w" "sess (snd (sl_deadline lib t w)) = sess w"
  using assms by (simp_all add: honest_def lib_quiet_def unchanged_def)

lemma honest_dial:
  assumes "honest lib conn sess" "sl_dial lib addr t w = (e, w1)"
  shows "conn w1 = (e = None \<or> conn w)" "sess w1 = sess w"
proof -
  have "conn (snd (sl_dial lib addr t w)) = (fst (sl_dial lib addr t w) = None \<or> conn w)"
    "sess (snd (sl_dial lib addr t w)) = sess w"
    using assms(1) by (simp_all add: honest_def lib_ok_def)
  then show "conn w1 = (e = None \<or> conn w)" "sess w1 = sess w"
    by (simp_all add: assms(2))
qed

lemma honest_handshake:
  assumes "honest lib conn sess" "sl_handshake lib addr c w = (e, w1)"
  shows "e = None \<Longrightarrow> conn w1 = conn w" "sess w1 = sess w"
proof -
  have "fst (sl_handshake lib addr c w) = None \<longrightarrow> conn (snd (sl_handshake lib addr c w)) = conn w"
    "sess (snd (sl_handshake lib addr c w)) = sess w"
    using assms(1) by (simp_all add: honest_def lib_ok_def)
  then show "e = None \<Longrightarrow> conn w1 = conn w" "sess w1 = sess w"
    by (simp_all add: assms(2))
qed

lemma CombinedOutput_closes:
  assumes "honest lib conn sess" "\<not> sess w"
  shows "\<not> sess (snd (CombinedOutput lib d cmd w)) \<and> conn (snd (CombinedOutput lib d cmd w)) = conn w"
  using assms unfolding honest_def lib_ok_def lib_quiet_def unchanged_def
  by (auto simp: CombinedOutput_def Let_def case_prod_beta split: option.splits)

lemma write_cmds_keeps: "honest lib conn sess \<Longrightarrow> conn (write_cmds lib cmds w) = conn w"
proof (induction cmds arbitrary: w)
  case (Cons cmd cmds)
  have "conn (snd (sl_write lib (cmd @ [CHR 0x0D]) w)) = conn w"
    using Cons.prems by (simp add: honest_def lib_quiet_def unchanged_def)
  then show ?case
    using Cons.IH[OF Cons.prems] by (simp add: Let_def case_prod_beta)
qed simp

lemma shell_dialogue_keeps:
  assumes "honest lib conn sess"
  shows "conn (snd (shell_dialogue lib d cmds w)) = conn w"
  using assms write_cmds_keeps[OF assms] unfolding honest_def lib_ok_def lib_quiet_def unchanged_def
  by (auto simp: shell_dialogue_def Let_def case_prod_beta split: option.splits)

lemma ShellOutput_closes:
  assumes "honest lib conn sess" "\<not> sess w"
  shows "\<not> sess (snd (ShellOutput lib d cmds w)) \<and> conn (snd (ShellOutput lib d cmds w)) = conn w"
  using assms shell_dialogue_keeps[OF assms(1)] unfolding honest_def lib_ok_def
  by (auto simp: ShellOutput_def Let_def case_prod_beta split: option.splits)

interpretation client: keeping_runner "sshRunner lib c" "\<lambda>w. honest lib conn sess \<longrightarrow> \<not> sess w" for lib conn sess c
  by unfold_locales (auto simp: sshRunner_def CombinedOutput_closes ShellOutput_closes)

lemma tcpOpen_closes:
  assumes "honest lib conn sess" "\<not> conn w"
  shows "\<not> conn (snd (tcpOpen lib addr t w)) \<and> sess (snd (tcpOpen lib addr t w)) = sess w"
proof -
  obtain e v where d: "sl_dial lib addr t w = (e, v)"
    by (metis surj_pair)
  then show ?thesis
    using honest_dial[OF assms(1) d] honest_close(1,2)[OF assms(1), of v] assms(2)
    by (cases e) (simp_all add: tcpOpen_def)
qed

lemma dialSSH_opens:
  assumes "honest lib conn sess" "\<not> conn w" "dialSSH lib addr user password t w = (r, w1)"
  shows "sess w1 = sess w \<and> (case r of Inl err \<Rightarrow> \<not> conn w1 | Inr c \<Rightarrow> conn w1 \<and> c = sshRunner lib True)"
proof -
  obtain e1 v1 where d1: "sl_dial lib addr t w = (e1, v1)"
    by (metis surj_pair)
  obtain e2 v2 where d2: "sl_deadline lib (Some t) v1 = (e2, v2)"
    by (metis surj_pair)
  obtain e3 v3 where d3: "sl_handshake lib addr (ssh_client_config user password t) v2 = (e3, v3)"
    by (metis surj_pair)
  have two: "conn v2 = conn v1" "sess v2 = sess v1"
    using honest_deadline[OF assms(1), of "Some t" v1] d2 by simp_all
  note facts = honest_dial[OF assms(1) d1] two honest_handshake[OF assms(1) d3] honest_close(1,2)[OF assms(1)]
    honest_deadline[OF assms(1)]
  show ?thesis
    using assms(2,3) facts unfolding dialSSH_def d1
    by (cases e1; cases e2; cases e3) (auto simp: d2 d3 case_prod_beta Let_def)
qed

subsection \<open>The goroutines of a session\<close>

text \<open>
  \<open>CombinedOutput\<close> with its watcher: the call blocks until the command has ended or the session is
  closed; then \<open>done\<close> is closed and the session too, in the order of the deferred calls.  The watcher
  closes the session when the context is done, or leaves when \<open>done\<close> is closed.  \<open>ca_closes\<close> counts the
  calls of \<open>session.Close\<close>.
\<close>

datatype call_pc = Calling | Unblock | CloseSession | CallDone
datatype watch_pc = Watching | WatchClosed | WatchGone

record call =
  ca_pc :: call_pc
  ca_watch :: watch_pc
  ca_expired :: bool
  ca_ended :: bool
  ca_closes :: nat

definition call_start :: call where
  "call_start = \<lparr>ca_pc = Calling, ca_watch = Watching, ca_expired = False, ca_ended = False, ca_closes = 0\<rparr>"

text \<open>The context has a deadline, so that it expires by itself.\<close>

inductive call_work :: "call \<Rightarrow> call \<Rightarrow> bool" where
  call_expire: "\<not> ca_expired s \<Longrightarrow> call_work s (s\<lparr>ca_expired := True\<rparr>)"
| call_return: "ca_pc s = Calling \<Longrightarrow> ca_ended s \<or> 0 < ca_closes s \<Longrightarrow> call_work s (s\<lparr>ca_pc := Unblock\<rparr>)"
| call_unblock: "ca_pc s = Unblock \<Longrightarrow> call_work s (s\<lparr>ca_pc := CloseSession\<rparr>)"
| call_close: "ca_pc s = CloseSession \<Longrightarrow> call_work s (s\<lparr>ca_pc := CallDone, ca_closes := Suc (ca_closes s)\<rparr>)"
| watch_fire: "ca_watch s = Watching \<Longrightarrow> ca_expired s \<Longrightarrow>
    call_work s (s\<lparr>ca_watch := WatchClosed, ca_closes := Suc (ca_closes s)\<rparr>)"
| watch_leave: "ca_watch s = Watching \<Longrightarrow> ca_pc s = CloseSession \<or> ca_pc s = CallDone \<Longrightarrow>
    call_work s (s\<lparr>ca_watch := WatchGone\<rparr>)"

inductive call_step :: "call \<Rightarrow> call \<Rightarrow> bool" where
  call_works: "call_work s t \<Longrightarrow> call_step s t"
| call_cancel: "call_step s (s\<lparr>ca_expired := True\<rparr>)"
| call_ends: "call_step s (s\<lparr>ca_ended := True\<rparr>)"

inductive_cases call_workE: "call_work s t"
inductive_cases call_stepE: "call_step s t"

definition call_finished :: "call \<Rightarrow> bool" where
  "call_finished s \<longleftrightarrow> ca_pc s = CallDone \<and> ca_watch s \<noteq> Watching"

definition call_ok :: "call \<Rightarrow> bool" where
  "call_ok s \<longleftrightarrow>
     ca_closes s = (if ca_pc s = CallDone then 1 else 0) + (if ca_watch s = WatchClosed then 1 else 0) \<and>
     (ca_watch s = WatchClosed \<longrightarrow> ca_expired s) \<and>
     (ca_watch s = WatchGone \<longrightarrow> ca_pc s = CloseSession \<or> ca_pc s = CallDone)"

fun call_left :: "call_pc \<Rightarrow> nat" where
  "call_left Calling = 3"
| "call_left Unblock = 2"
| "call_left CloseSession = 1"
| "call_left CallDone = 0"

definition call_weight :: "call \<Rightarrow> nat" where
  "call_weight s = call_left (ca_pc s) + (if ca_watch s = Watching then 1 else 0) + (if ca_expired s then 0 else 1)"

lemma call_progress: "call_ok s \<Longrightarrow> \<not> call_finished s \<Longrightarrow> \<exists>t. call_work s t"
proof -
  assume ok: "call_ok s" and go: "\<not> call_finished s"
  consider (expire) "\<not> ca_expired s" | (fire) "ca_watch s = Watching" "ca_expired s" | (calling) "ca_pc s = Calling" "ca_watch s = WatchClosed"
    | (later) "ca_pc s = Unblock \<or> ca_pc s = CloseSession"
    using ok go by (cases "ca_pc s"; cases "ca_watch s") (auto simp: call_ok_def call_finished_def)
  then show ?thesis
  proof cases
    case calling
    then have "0 < ca_closes s"
      using ok by (simp add: call_ok_def)
    then show ?thesis
      using calling call_return by blast
  qed (auto intro: call_work.intros)
qed

interpretation call: fair_system "\<lambda>s. s = call_start" call_step call_ok call_work call_weight call_finished
proof unfold_locales
  show "call_ok t" if "call_ok s" "call_step s t" for s t
    using that(2,1) by (auto elim!: call_stepE call_workE simp: call_ok_def split: if_splits)
  show less: "call_weight t < call_weight s" if "call_ok s" "call_work s t" for s t
    using that(2) by (auto elim!: call_workE simp: call_weight_def)
  show "call_weight t \<le> call_weight s" if "call_ok s" "call_step s t" for s t
    using that(2) less[OF that(1), of t] by (auto elim!: call_stepE simp: call_weight_def)
qed (auto simp: call_start_def call_ok_def call_step.call_works call_progress)

text \<open>
  \<open>ShellOutput\<close> with the goroutine that waits for the shell: it sends its result into a channel with
  room for one, so that it never blocks on it.  The select takes the result, or closes the session when
  the context is done; the deferred close follows.
\<close>

datatype shell_pc = Selecting | LastClose | ShellDone

record shell_call =
  sc_pc :: shell_pc
  sc_waited :: bool
  sc_expired :: bool
  sc_ended :: bool
  sc_closes :: nat

definition shell_start :: shell_call where
  "shell_start = \<lparr>sc_pc = Selecting, sc_waited = False, sc_expired = False, sc_ended = False, sc_closes = 0\<rparr>"

inductive shell_work :: "shell_call \<Rightarrow> shell_call \<Rightarrow> bool" where
  shell_expire: "\<not> sc_expired s \<Longrightarrow> shell_work s (s\<lparr>sc_expired := True\<rparr>)"
| shell_waited: "\<not> sc_waited s \<Longrightarrow> sc_ended s \<or> 0 < sc_closes s \<Longrightarrow> shell_work s (s\<lparr>sc_waited := True\<rparr>)"
| select_timeout: "sc_pc s = Selecting \<Longrightarrow> sc_expired s \<Longrightarrow>
    shell_work s (s\<lparr>sc_pc := LastClose, sc_closes := Suc (sc_closes s)\<rparr>)"
| select_result: "sc_pc s = Selecting \<Longrightarrow> sc_waited s \<Longrightarrow> shell_work s (s\<lparr>sc_pc := LastClose\<rparr>)"
| shell_close: "sc_pc s = LastClose \<Longrightarrow> shell_work s (s\<lparr>sc_pc := ShellDone, sc_closes := Suc (sc_closes s)\<rparr>)"

inductive shell_step :: "shell_call \<Rightarrow> shell_call \<Rightarrow> bool" where
  shell_works: "shell_work s t \<Longrightarrow> shell_step s t"
| shell_cancel: "shell_step s (s\<lparr>sc_expired := True\<rparr>)"
| shell_ends: "shell_step s (s\<lparr>sc_ended := True\<rparr>)"

inductive_cases shell_workE: "shell_work s t"
inductive_cases shell_stepE: "shell_step s t"

definition shell_finished :: "shell_call \<Rightarrow> bool" where
  "shell_finished s \<longleftrightarrow> sc_pc s = ShellDone \<and> sc_waited s"

definition shell_ok :: "shell_call \<Rightarrow> bool" where
  "shell_ok s \<longleftrightarrow>
     (sc_pc s = Selecting \<longrightarrow> sc_closes s = 0) \<and> (sc_pc s = LastClose \<longrightarrow> sc_closes s \<le> 1) \<and>
     (sc_pc s = ShellDone \<longrightarrow> sc_closes s = 1 \<or> sc_closes s = 2)"

fun shell_left :: "shell_pc \<Rightarrow> nat" where
  "shell_left Selecting = 2"
| "shell_left LastClose = 1"
| "shell_left ShellDone = 0"

definition shell_weight :: "shell_call \<Rightarrow> nat" where
  "shell_weight s = shell_left (sc_pc s) + (if sc_waited s then 0 else 1) + (if sc_expired s then 0 else 1)"

lemma shell_progress: "shell_ok s \<Longrightarrow> \<not> shell_finished s \<Longrightarrow> \<exists>t. shell_work s t"
proof -
  assume ok: "shell_ok s" and go: "\<not> shell_finished s"
  consider (expire) "\<not> sc_expired s" | (select) "sc_pc s = Selecting" "sc_expired s" | (close) "sc_pc s = LastClose"
    | (last) "sc_pc s = ShellDone" "\<not> sc_waited s"
    using go by (cases "sc_pc s") (auto simp: shell_finished_def)
  then show ?thesis
  proof cases
    case last
    then have "0 < sc_closes s"
      using ok by (auto simp: shell_ok_def)
    then show ?thesis
      using last shell_waited by blast
  qed (auto intro: shell_work.intros)
qed

interpretation shell: fair_system "\<lambda>s. s = shell_start" shell_step shell_ok shell_work shell_weight shell_finished
proof unfold_locales
  show "shell_ok t" if "shell_ok s" "shell_step s t" for s t
    using that(2,1) by (auto elim!: shell_stepE shell_workE simp: shell_ok_def)
  show less: "shell_weight t < shell_weight s" if "shell_ok s" "shell_work s t" for s t
    using that(2) by (auto elim!: shell_workE simp: shell_weight_def)
  show "shell_weight t \<le> shell_weight s" if "shell_ok s" "shell_step s t" for s t
    using that(2) less[OF that(1), of t] by (auto elim!: shell_stepE simp: shell_weight_def)
qed (auto simp: shell_start_def shell_ok_def shell_step.shell_works shell_progress)

subsection \<open>Properties\<close>

text \<open>C11.  No probe leaves a connection or a session open, whatever fails: the port, the handshake, a
  login, a session, the pseudo terminal, the shell, a write, or the time.\<close>

theorem probe_closes:
  assumes "honest lib conn sess" "\<not> conn w" "\<not> sess w"
    and "probeOne ctx_err (client_env lib) m ip t w = (Some res, w')"
  shows "\<not> conn w' \<and> \<not> sess w'"
proof -
  have logins: "\<not> conn w' \<and> \<not> sess w'"
    if "try_logins ctx_err (client_env lib) addr t ip creds w = (Some res, w')" "\<not> conn w" "\<not> sess w" for addr t creds w res
    using that
  proof (induction creds arbitrary: w)
    case (Cons cred creds)
    obtain user pass where cred: "cred = (user, pass)"
      by (metis surj_pair)
    obtain r w1 where dial: "dialSSH lib addr user pass t w = (r, w1)"
      by (metis surj_pair)
    note opened = dialSSH_opens[OF assms(1) Cons.prems(2) dial]
    show ?case
    proof (cases "ctx_err w")
      case False
      show ?thesis
      proof (cases r)
        case (Inl err)
        then show ?thesis
          using Cons.IH[of w1] Cons.prems opened False dial cred by (simp add: client_env_def)
      next
        case (Inr c)
        then have c: "c = sshRunner lib True" "\<not> sess w1"
          using opened Cons.prems(3) by auto
        obtain got w2 where got: "collect ctx_err c w1 = (got, w2)"
          by (metis surj_pair)
        then have "\<not> sess w2"
          using client.collect_keeps[of lib conn sess w1 ctx_err True] c assms(1) by simp
        moreover have "w' = rn_close c w2"
          using Cons.prems(1) Inr False dial cred got by (auto simp: client_env_def split: option.splits)
        then have "w' = sl_close_client lib w2"
          by (simp add: c(1) sshRunner_def runner_Close_def)
        ultimately show ?thesis
          using assms(1) by (simp add: honest_def lib_ok_def)
      qed
    qed (use Cons.prems cred in simp)
  qed simp
  let ?addr = "join_host_port (ip_string ip) (fmt_int (ssh_port m))"
  obtain up w1 where tcp: "tcpOpen lib ?addr t w = (up, w1)"
    by (metis surj_pair)
  then have w1: "\<not> conn w1" "\<not> sess w1"
    using tcpOpen_closes[OF assms(1,2), of ?addr t] assms(3) by simp_all
  show ?thesis
  proof (cases "\<not> ctx_err w \<and> up")
    case True
    then have "try_logins ctx_err (client_env lib) ?addr (dialTimeout m) ip (credentials m) w1 = (Some res, w')"
      using assms(4) tcp by (simp add: probeOne_def client_env_def)
    then show ?thesis
      using logins w1 by blast
  next
    case False
    then have "w' = w \<or> w' = w1"
      using assms(4) tcp by (auto simp: probeOne_def client_env_def split: if_splits)
    then show ?thesis
      using assms(2,3) w1 by blast
  qed
qed


subsection \<open>A connection\<close>

text \<open>The world is whether the connection and the session are open; only the password \<open>good\<close> is accepted.\<close>

definition demo_lib :: "(bool \<times> bool) ssh_lib" where
  "demo_lib =
     \<lparr>sl_dial = (\<lambda>a t (c, s). (None, (True, s))), sl_deadline = (\<lambda>t w. (None, w)),
      sl_handshake = (\<lambda>a cfg w. (if Password ''good'' \<in> set (cc_Auth cfg) then None else Some ''denied'', w)),
      sl_close_conn = (\<lambda>(c, s). (False, s)), sl_close_client = (\<lambda>(c, s). (False, s)),
      sl_new_session = (\<lambda>(c, s). (None, (c, True))), sl_close_session = (\<lambda>(c, s). (c, False)),
      sl_output = (\<lambda>d cmd w. ((if cmd = ''hostname'' then ''web1'' else '''', None), w)),
      sl_pty = (\<lambda>term h k m w. (None, w)), sl_stdin = (\<lambda>w. (None, w)), sl_shell = (\<lambda>w. (None, w)),
      sl_write = (\<lambda>s w. (None, w)), sl_close_stdin = (\<lambda>w. w), sl_wait = (\<lambda>d w. (True, w)),
      sl_buffer = (\<lambda>w. ''''), sl_ctx_text = ''context deadline exceeded''\<rparr>"

lemma demo_honest: "honest demo_lib fst snd"
  by (simp add: honest_def lib_ok_def lib_quiet_def unchanged_def demo_lib_def case_prod_beta)

lemma demo_sessions: "env_ascii (client_env demo_lib)"
  by (auto simp: env_ascii_def client_env_def dialSSH_def demo_lib_def runner_ascii_def sshRunner_def CombinedOutput_def
      ShellOutput_def shell_dialogue_def is_ascii_def byte_val_def Let_def case_prod_beta split: if_splits)

theorem probe_closes_witness:
  "\<exists>res w'. probeOne (\<lambda>w. False) (client_env demo_lib) demo_method demo_host 0 (False, False) = (Some res, w') \<and>
     \<not> fst w' \<and> \<not> snd w'"
proof -
  obtain res w' where p: "probeOne (\<lambda>w. False) (client_env demo_lib) demo_method demo_host 0 (False, False) = (Some res, w')"
    using probeOne_total[OF demo_sessions] by (metis not_None_eq prod.collapse)
  then show ?thesis
    using probe_closes[OF demo_honest _ _ p] by simp
qed

text \<open>A command that ends in time, and a shell that does not.\<close>

definition demo_call :: "call_pc \<Rightarrow> watch_pc \<Rightarrow> bool \<Rightarrow> bool \<Rightarrow> nat \<Rightarrow> call" where
  "demo_call pc watch ex ended n = \<lparr>ca_pc = pc, ca_watch = watch, ca_expired = ex, ca_ended = ended, ca_closes = n\<rparr>"

definition demo_call_run :: "nat \<Rightarrow> call" where
  "demo_call_run i =
    [call_start, demo_call Calling Watching False True 0, demo_call Unblock Watching False True 0,
     demo_call CloseSession Watching False True 0, demo_call CloseSession WatchGone False True 0,
     demo_call CallDone WatchGone False True 1, demo_call CallDone WatchGone True True 1] ! min i 6"

definition demo_shell :: "shell_pc \<Rightarrow> bool \<Rightarrow> bool \<Rightarrow> nat \<Rightarrow> shell_call" where
  "demo_shell pc waited ex n = \<lparr>sc_pc = pc, sc_waited = waited, sc_expired = ex, sc_ended = False, sc_closes = n\<rparr>"

definition demo_shell_run :: "nat \<Rightarrow> shell_call" where
  "demo_shell_run i =
    [shell_start, demo_shell Selecting False True 0, demo_shell LastClose False True 1, demo_shell LastClose True True 1,
     demo_shell ShellDone True True 2] ! min i 4"

lemma demo_call_fair: "fair_run call_step call_work demo_call_run"
proof (rule fair_run_stays[of 6])
  note r = demo_call_run_def demo_call_def call_start_def
  have "call_step (demo_call_run 0) (demo_call_run 1)"
    using call_ends[of "demo_call_run 0"] by (simp add: r)
  moreover have "call_step (demo_call_run 1) (demo_call_run 2)"
    using call_return[of "demo_call_run 1", THEN call_works] by (simp add: r)
  moreover have "call_step (demo_call_run 2) (demo_call_run 3)"
    using call_unblock[of "demo_call_run 2", THEN call_works] by (simp add: r)
  moreover have "call_step (demo_call_run 3) (demo_call_run 4)"
    using watch_leave[of "demo_call_run 3", THEN call_works] by (simp add: r)
  moreover have "call_step (demo_call_run 4) (demo_call_run 5)"
    using call_close[of "demo_call_run 4", THEN call_works] by (simp add: r)
  moreover have "call_step (demo_call_run 5) (demo_call_run 6)"
    using call_expire[of "demo_call_run 5", THEN call_works] by (simp add: r)
  ultimately show "\<forall>i < 6. call_step (demo_call_run i) (demo_call_run (Suc i))"
    by (auto simp: less_Suc_eq numeral_eq_Suc)
  show "\<forall>i \<ge> 6. demo_call_run i = demo_call_run 6"
    by (simp add: demo_call_run_def)
  show "\<not> (\<exists>t. call_work (demo_call_run 6) t)"
    by (auto simp: r elim!: call_workE)
qed

lemma demo_shell_fair: "fair_run shell_step shell_work demo_shell_run"
proof (rule fair_run_stays[of 4])
  note r = demo_shell_run_def demo_shell_def shell_start_def
  have "shell_step (demo_shell_run 0) (demo_shell_run 1)"
    using shell_expire[of "demo_shell_run 0", THEN shell_works] by (simp add: r)
  moreover have "shell_step (demo_shell_run 1) (demo_shell_run 2)"
    using select_timeout[of "demo_shell_run 1", THEN shell_works] by (simp add: r)
  moreover have "shell_step (demo_shell_run 2) (demo_shell_run 3)"
    using shell_waited[of "demo_shell_run 2", THEN shell_works] by (simp add: r)
  moreover have "shell_step (demo_shell_run 3) (demo_shell_run 4)"
    using shell_close[of "demo_shell_run 3", THEN shell_works] by (simp add: r numeral_2_eq_2)
  ultimately show "\<forall>i < 4. shell_step (demo_shell_run i) (demo_shell_run (Suc i))"
    by (auto simp: less_Suc_eq numeral_eq_Suc)
  show "\<forall>i \<ge> 4. demo_shell_run i = demo_shell_run 4"
    by (simp add: demo_shell_run_def)
  show "\<not> (\<exists>t. shell_work (demo_shell_run 4) t)"
    by (auto simp: r elim!: shell_workE)
qed


end
